theory Spec2Isabelle
  imports Complex_Main "HOL-Library.Word"
begin

section \<open>Single-precision arithmetic\<close>

text \<open>
  The program computes in C++ \<^verbatim>\<open>float\<close>, IEEE 754 binary32 with round-to-nearest-even,
  every operation rounded on its own. Every finite binary32 value is an integer multiple
  of \<open>2 ^ -149\<close>, so a finite value is stored as a sign and that multiple:
  \<open>Fin s k\<close> is \<open>(-1) ^ s * k * 2 ^ -149\<close> (\<open>s = True\<close> is the minus sign, and
  \<open>Fin True 0\<close> is the negative zero). All NaNs are one value.
\<close>

datatype f32 = NaN | Inf bool | Fin bool nat

fun bit_length :: "nat \<Rightarrow> nat" where
  "bit_length n = (if n = 0 then 0 else Suc (bit_length (n div 2)))"

declare bit_length.simps [simp del]

text \<open>
  \<open>round_even p n d\<close> is the multiple of the unit nearest to \<open>n / d\<close> that has at most
  \<open>p\<close> significant bits, ties going to the even significand. The spacing \<open>2 ^ j\<close> of
  the representable values around \<open>n / d\<close> is read off the bit length of the quotient.
\<close>

definition round_even :: "nat \<Rightarrow> nat \<Rightarrow> nat \<Rightarrow> nat" where
  "round_even p n d =
     (let j = bit_length (n div d) - p;
          d' = d * 2 ^ j;
          q = n div d';
          r = n mod d'
      in (if 2 * r < d' then q
          else if d' < 2 * r then q + 1
          else if even q then q else q + 1) * 2 ^ j)"

text \<open>The largest finite binary32 value is \<open>(2 ^ 24 - 1) * 2 ^ 253\<close> units.\<close>

definition f32_round :: "bool \<Rightarrow> nat \<Rightarrow> nat \<Rightarrow> f32" where
  "f32_round s n d = (let k = round_even 24 n d in if k < 2 ^ 277 then Fin s k else Inf s)"

definition sval :: "bool \<Rightarrow> nat \<Rightarrow> int" where
  "sval s k = (if s then - int k else int k)"

fun fneg :: "f32 \<Rightarrow> f32" where
  "fneg NaN = NaN"
| "fneg (Inf s) = Inf (\<not> s)"
| "fneg (Fin s k) = Fin (\<not> s) k"

fun fadd :: "f32 \<Rightarrow> f32 \<Rightarrow> f32" where
  "fadd NaN _ = NaN"
| "fadd _ NaN = NaN"
| "fadd (Inf s) (Inf t) = (if s = t then Inf s else NaN)"
| "fadd (Inf s) (Fin _ _) = Inf s"
| "fadd (Fin _ _) (Inf t) = Inf t"
| "fadd (Fin s k) (Fin t l) =
     (let v = sval s k + sval t l
      in if v = 0 then Fin (s \<and> t) 0 else f32_round (v < 0) (nat \<bar>v\<bar>) 1)"

definition fsub :: "f32 \<Rightarrow> f32 \<Rightarrow> f32" where
  "fsub x y = fadd x (fneg y)"

fun fmul :: "f32 \<Rightarrow> f32 \<Rightarrow> f32" where
  "fmul NaN _ = NaN"
| "fmul _ NaN = NaN"
| "fmul (Inf s) (Inf t) = Inf (s \<noteq> t)"
| "fmul (Inf s) (Fin t l) = (if l = 0 then NaN else Inf (s \<noteq> t))"
| "fmul (Fin s k) (Inf t) = (if k = 0 then NaN else Inf (s \<noteq> t))"
| "fmul (Fin s k) (Fin t l) = f32_round (s \<noteq> t) (k * l) (2 ^ 149)"

fun fdiv :: "f32 \<Rightarrow> f32 \<Rightarrow> f32" where
  "fdiv NaN _ = NaN"
| "fdiv _ NaN = NaN"
| "fdiv (Inf s) (Inf t) = NaN"
| "fdiv (Inf s) (Fin t l) = Inf (s \<noteq> t)"
| "fdiv (Fin s k) (Inf t) = Fin (s \<noteq> t) 0"
| "fdiv (Fin s k) (Fin t l) =
     (if l = 0 then (if k = 0 then NaN else Inf (s \<noteq> t))
      else f32_round (s \<noteq> t) (k * 2 ^ 149) l)"

text \<open>Comparisons: every comparison with a NaN operand is false.\<close>

fun flt :: "f32 \<Rightarrow> f32 \<Rightarrow> bool" where
  "flt NaN _ = False"
| "flt _ NaN = False"
| "flt (Inf s) (Inf t) = (s \<and> \<not> t)"
| "flt (Inf s) (Fin _ _) = s"
| "flt (Fin _ _) (Inf t) = (\<not> t)"
| "flt (Fin s k) (Fin t l) = (sval s k < sval t l)"

fun fle :: "f32 \<Rightarrow> f32 \<Rightarrow> bool" where
  "fle NaN _ = False"
| "fle _ NaN = False"
| "fle (Inf s) (Inf t) = (s \<or> \<not> t)"
| "fle (Inf s) (Fin _ _) = s"
| "fle (Fin _ _) (Inf t) = (\<not> t)"
| "fle (Fin s k) (Fin t l) = (sval s k \<le> sval t l)"

text \<open>
  Conversions. An integer becomes the nearest float (\<^verbatim>\<open>(float)x\<close>); a literal with
  suffix \<^verbatim>\<open>f\<close> is the float nearest to its decimal value; a literal without it is a
  \<^verbatim>\<open>double\<close> that is then rounded to \<^verbatim>\<open>float\<close>. The \<^verbatim>\<open>double\<close> literals of the
  program (\<open>1e-10\<close>, \<open>0.32\<close>, \<open>0.84\<close>, \<open>0.0\<close>) are zero or far above the smallest
  normal \<^verbatim>\<open>double\<close>, so their \<^verbatim>\<open>double\<close> value is the rounding to 53 significant
  bits; it is taken in the unit \<open>2 ^ -202\<close>, of which the unit of \<^verbatim>\<open>float\<close> is a
  multiple. \<^verbatim>\<open>(int)f\<close> truncates toward zero and is undefined (\<open>None\<close>) for a
  NaN, an infinity and a value outside the 32-bit range.
\<close>

definition f32_of_nat :: "nat \<Rightarrow> f32" where
  "f32_of_nat n = f32_round False (n * 2 ^ 149) 1"

definition f32_literal :: "nat \<Rightarrow> nat \<Rightarrow> f32" where
  "f32_literal n d = f32_round False (n * 2 ^ 149) d"

definition f32_of_double_literal :: "nat \<Rightarrow> nat \<Rightarrow> f32" where
  "f32_of_double_literal n d = f32_round False (round_even 53 (n * 2 ^ 202) d) (2 ^ 53)"

fun int_of_f32 :: "f32 \<Rightarrow> int option" where
  "int_of_f32 NaN = None"
| "int_of_f32 (Inf s) = None"
| "int_of_f32 (Fin s k) =
     (let i = sval s (k div 2 ^ 149)
      in if - (2 ^ 31) \<le> i \<and> i < 2 ^ 31 then Some i else None)"

definition eps1 :: f32 where
  "eps1 = f32_literal 1 (10 ^ 7)"

definition eps2 :: f32 where
  "eps2 = f32_of_double_literal 1 (10 ^ 10)"

subsection \<open>vec3 operations\<close>

datatype 'a array3 = Array3 (at0: 'a) (at1: 'a) (at2: 'a)

type_synonym vec3 = "f32 array3"

definition vadd :: "vec3 \<Rightarrow> vec3 \<Rightarrow> vec3" where
  "vadd lhs rhs =
     Array3 (fadd (at0 lhs) (at0 rhs)) (fadd (at1 lhs) (at1 rhs)) (fadd (at2 lhs) (at2 rhs))"

definition vsub :: "vec3 \<Rightarrow> vec3 \<Rightarrow> vec3" where
  "vsub lhs rhs =
     Array3 (fsub (at0 lhs) (at0 rhs)) (fsub (at1 lhs) (at1 rhs)) (fsub (at2 lhs) (at2 rhs))"

definition vdiv :: "vec3 \<Rightarrow> vec3 \<Rightarrow> vec3" where
  "vdiv lhs rhs =
     Array3 (fdiv (at0 lhs) (at0 rhs)) (fdiv (at1 lhs) (at1 rhs)) (fdiv (at2 lhs) (at2 rhs))"

definition vmul :: "vec3 \<Rightarrow> vec3 \<Rightarrow> vec3" where
  "vmul lhs rhs =
     Array3 (fmul (at0 lhs) (at0 rhs)) (fmul (at1 lhs) (at1 rhs)) (fmul (at2 lhs) (at2 rhs))"

definition vdivs :: "vec3 \<Rightarrow> f32 \<Rightarrow> vec3" where
  "vdivs lhs rhs = Array3 (fdiv (at0 lhs) rhs) (fdiv (at1 lhs) rhs) (fdiv (at2 lhs) rhs)"

definition vscale :: "vec3 \<Rightarrow> f32 \<Rightarrow> vec3" where
  "vscale lhs rhs = Array3 (fmul (at0 lhs) rhs) (fmul (at1 lhs) rhs) (fmul (at2 lhs) rhs)"

definition cross :: "vec3 \<Rightarrow> vec3 \<Rightarrow> vec3" where
  "cross lhs rhs =
     Array3 (fsub (fmul (at1 lhs) (at2 rhs)) (fmul (at2 lhs) (at1 rhs)))
            (fsub (fmul (at2 lhs) (at0 rhs)) (fmul (at0 lhs) (at2 rhs)))
            (fsub (fmul (at0 lhs) (at1 rhs)) (fmul (at1 lhs) (at0 rhs)))"

definition dot :: "vec3 \<Rightarrow> vec3 \<Rightarrow> f32" where
  "dot lhs rhs =
     fadd (fadd (fmul (at0 lhs) (at0 rhs)) (fmul (at1 lhs) (at1 rhs)))
          (fmul (at2 lhs) (at2 rhs))"

section \<open>Framebuffer abstraction\<close>

type_synonym u32 = "32 word"

record Frame =
  WIDTH :: u32
  HEIGHT :: u32
  buffer :: "vec3 list"

text \<open>
  The constructor sizes the buffer with the 32-bit product \<^verbatim>\<open>WIDTH * HEIGHT\<close>. The
  accessors index the vector unchecked with the 32-bit value \<^verbatim>\<open>x + y * WIDTH\<close>; an
  index past the end is undefined behaviour, which is the result \<open>None\<close> here.
\<close>

definition Frame_init :: "u32 \<Rightarrow> u32 \<Rightarrow> vec3 \<Rightarrow> Frame" where
  "Frame_init width height fill =
     \<lparr>WIDTH = width, HEIGHT = height, buffer = replicate (unat (width * height)) fill\<rparr>"

definition pixel_index :: "Frame \<Rightarrow> u32 \<Rightarrow> u32 \<Rightarrow> nat" where
  "pixel_index f x y = unat (x + y * WIDTH f)"

definition setPixel :: "Frame \<Rightarrow> u32 \<Rightarrow> u32 \<Rightarrow> vec3 \<Rightarrow> Frame option" where
  "setPixel f x y colour =
     (if pixel_index f x y < length (buffer f)
      then Some (f\<lparr>buffer := (buffer f)[pixel_index f x y := colour]\<rparr>)
      else None)"

definition getPixel :: "Frame \<Rightarrow> u32 \<Rightarrow> u32 \<Rightarrow> vec3 option" where
  "getPixel f x y =
     (if pixel_index f x y < length (buffer f)
      then Some (buffer f ! pixel_index f x y)
      else None)"

subsection \<open>Text output\<close>

fun dec_nat :: "nat \<Rightarrow> string" where
  "dec_nat n =
     (if n < 10 then [''0123456789'' ! n]
      else dec_nat (n div 10) @ [''0123456789'' ! (n mod 10)])"

declare dec_nat.simps [simp del]

definition dec_int :: "int \<Rightarrow> string" where
  "dec_int i = (if i < 0 then CHR ''-'' # dec_nat (nat (- i)) else dec_nat (nat i))"

definition endl :: string where
  "endl = [CHR 0x0A]"

text \<open>One channel of one pixel: \<^verbatim>\<open>(int)(getPixel(x, y)[i] * 255)\<close>, printed in decimal.\<close>

definition channel_text :: "Frame \<Rightarrow> u32 \<Rightarrow> u32 \<Rightarrow> (vec3 \<Rightarrow> f32) \<Rightarrow> string option" where
  "channel_text f x y sel =
     Option.bind (getPixel f x y) (\<lambda>p.
     Option.bind (int_of_f32 (fmul (sel p) (f32_of_nat 255))) (\<lambda>i.
     Some (dec_int i)))"

definition pixel_text :: "Frame \<Rightarrow> u32 \<Rightarrow> u32 \<Rightarrow> string option" where
  "pixel_text f x y =
     Option.bind (channel_text f x y at0) (\<lambda>r.
     Option.bind (channel_text f x y at1) (\<lambda>g.
     Option.bind (channel_text f x y at2) (\<lambda>b.
     Some (r @ '' '' @ g @ '' '' @ b @ endl))))"

text \<open>
  The loops of \<^verbatim>\<open>writeBuffer\<close> count in \<^verbatim>\<open>int32_t\<close>: \<open>y\<close> and \<open>x\<close> are 32-bit
  words read as signed by \<open>sint\<close>. The test \<^verbatim>\<open>x < WIDTH\<close> converts \<open>x\<close> to
  unsigned, so it is the unsigned comparison of the words; \<^verbatim>\<open>++x\<close> at the largest
  \<^verbatim>\<open>int32_t\<close> is a signed overflow, undefined (\<open>None\<close>).
\<close>

function write_cols :: "Frame \<Rightarrow> 32 word \<Rightarrow> 32 word \<Rightarrow> string \<Rightarrow> string option" where
  "write_cols f y x out =
     (if x < WIDTH f
      then (case pixel_text f x y of
              None \<Rightarrow> None
            | Some t \<Rightarrow> if sint x = 2 ^ 31 - 1 then None else write_cols f y (x + 1) (out @ t))
      else Some out)"
  by pat_completeness auto
termination
proof (relation "measure (\<lambda>(f, y, x, out). 2 ^ 32 - unat x)")
  show "wf (measure (\<lambda>(f, y, x, out). 2 ^ 32 - unat x))"
    by simp
next
  fix f :: Frame and y x :: "32 word" and out t :: string
  assume "x < WIDTH f"
  then have "x \<noteq> - 1"
    by (metis word_order.extremum_strict)
  then have "1 + x \<noteq> 0"
    by (metis add_eq_0_iff)
  then have "unat (x + 1) = Suc (unat x)"
    by (simp add: unatSuc add.commute)
  moreover have "unat x < 2 ^ 32"
    using unsigned_less [of x] by simp
  ultimately show "((f, y, x + 1, out @ t), (f, y, x, out)) \<in> measure (\<lambda>(f, y, x, out). 2 ^ 32 - unat x)"
    by simp
qed

function write_rows :: "Frame \<Rightarrow> 32 word \<Rightarrow> string \<Rightarrow> string option" where
  "write_rows f y out =
     (if 0 \<le> sint y
      then (case write_cols f y 0 out of
              None \<Rightarrow> None
            | Some out' \<Rightarrow> write_rows f (y - 1) out')
      else Some out)"
  by pat_completeness auto
termination
proof (relation "measure (\<lambda>(f, y, out). nat (sint y + 1))")
  show "wf (measure (\<lambda>(f, y, out). nat (sint y + 1)))"
    by simp
next
  fix f :: Frame and y :: "32 word" and out out' :: string
  assume "0 \<le> sint y"
  moreover from this have "sint (y - 1) = sint y - 1"
    using sint_lt [of y] by (simp add: sint_word_ariths signed_take_bit_int_eq_self)
  ultimately show "((f, y - 1, out'), (f, y, out)) \<in> measure (\<lambda>(f, y, out). nat (sint y + 1))"
    by simp
qed

declare write_cols.simps [simp del] write_rows.simps [simp del]

definition writeBuffer :: "Frame \<Rightarrow> string option" where
  "writeBuffer f =
     write_rows f (HEIGHT f - 1)
       (''P3 '' @ dec_nat (unat (WIDTH f)) @ '' '' @ dec_nat (unat (HEIGHT f)) @ '' 255'' @ endl)"

section \<open>The rasterizer\<close>

record Triangle =
  vertices :: "vec3 array3"
  colors :: "vec3 array3"

text \<open>
  What the loop body does besides computing values is recorded in a trace: each
  evaluation of a floating-point division (numerator, denominator) and each call of
  \<^verbatim>\<open>frame.setPixel\<close>. A floating-point division never traps; dividing by zero
  gives an infinity or a NaN.
\<close>

datatype event = Divide f32 f32 | SetPixel u32 u32 vec3

record raster_state =
  frame :: Frame
  trace :: "event list"

definition divide :: "f32 \<Rightarrow> f32 \<Rightarrow> event list \<Rightarrow> f32 \<times> event list" where
  "divide n d tr = (fdiv n d, tr @ [Divide n d])"

definition f32_zero :: f32 where
  "f32_zero = Fin False 0"

definition f32_one :: f32 where
  "f32_one = Fin False (2 ^ 149)"

text \<open>The body of the pixel loop, lines 107 to 141 of \<^verbatim>\<open>main.cpp\<close>.\<close>

definition raster_pixel :: "Triangle \<Rightarrow> u32 \<Rightarrow> u32 \<Rightarrow> raster_state \<Rightarrow> raster_state option" where
  "raster_pixel tri x y st =
     (let pix = Array3 (f32_of_nat (unat x)) (f32_of_nat (unat y)) f32_zero;
          dir = Array3 f32_zero f32_zero f32_one;
          u = vsub (at1 (vertices tri)) (at0 (vertices tri));
          v = vsub (at2 (vertices tri)) (at0 (vertices tri));
          n = cross dir v;
          a = dot u n;
          s = vsub pix (at0 (vertices tri));
          r = cross s u;
          (d, tr1) = divide (dot v r) a (trace st);
          (b1, tr2) = divide (dot s n) a tr1;
          (b2, tr3) = divide (dot dir r) a tr2;
          b0 = fsub f32_one (fadd b1 b2);
          offAlpha = flt b0 (fneg eps2);
          offBeta = flt b1 (fneg eps2);
          offGamma = flt b2 (fneg eps2);
          zeroArea = fle a eps1
      in if \<not> (zeroArea \<or> offAlpha \<or> offBeta \<or> offGamma \<or> fle d (f32_literal 1 10))
         then (let colour = vadd (vadd (vscale (at0 (colors tri)) b0)
                                        (vscale (at1 (colors tri)) b1))
                                  (vscale (at2 (colors tri)) b2)
               in case setPixel (frame st) x y colour of
                    None \<Rightarrow> None
                  | Some f' \<Rightarrow> Some \<lparr>frame = f', trace = tr3 @ [SetPixel x y colour]\<rparr>)
         else Some (st\<lparr>trace := tr3\<rparr>))"

function raster_cols :: "Triangle \<Rightarrow> u32 \<Rightarrow> u32 \<Rightarrow> raster_state \<Rightarrow> raster_state option" where
  "raster_cols tri y x st =
     (if x < WIDTH (frame st)
      then (case raster_pixel tri x y st of
              None \<Rightarrow> None
            | Some st' \<Rightarrow> raster_cols tri y (x + 1) st')
      else Some st)"
  by pat_completeness auto
termination
proof (relation "measure (\<lambda>(tri, y, x, st). 2 ^ 32 - unat x)")
  show "wf (measure (\<lambda>(tri, y, x, st). 2 ^ 32 - unat x))"
    by simp
next
  fix tri :: Triangle and y x :: u32 and st st' :: raster_state
  assume "x < WIDTH (frame st)"
  then have "x \<noteq> - 1"
    by (metis word_order.extremum_strict)
  then have "1 + x \<noteq> 0"
    by (metis add_eq_0_iff)
  then have "unat (x + 1) = Suc (unat x)"
    by (simp add: unatSuc add.commute)
  moreover have "unat x < 2 ^ 32"
    using unsigned_less [of x] by simp
  ultimately show "((tri, y, x + 1, st'), (tri, y, x, st))
      \<in> measure (\<lambda>(tri, y, x, st). 2 ^ 32 - unat x)"
    by simp
qed

function raster_rows :: "Triangle \<Rightarrow> u32 \<Rightarrow> raster_state \<Rightarrow> raster_state option" where
  "raster_rows tri y st =
     (if y < HEIGHT (frame st)
      then (case raster_cols tri y 0 st of
              None \<Rightarrow> None
            | Some st' \<Rightarrow> raster_rows tri (y + 1) st')
      else Some st)"
  by pat_completeness auto
termination
proof (relation "measure (\<lambda>(tri, y, st). 2 ^ 32 - unat y)")
  show "wf (measure (\<lambda>(tri, y, st). 2 ^ 32 - unat y))"
    by simp
next
  fix tri :: Triangle and y :: u32 and st st' :: raster_state
  assume "y < HEIGHT (frame st)"
  then have "y \<noteq> - 1"
    by (metis word_order.extremum_strict)
  then have "1 + y \<noteq> 0"
    by (metis add_eq_0_iff)
  then have "unat (y + 1) = Suc (unat y)"
    by (simp add: unatSuc add.commute)
  moreover have "unat y < 2 ^ 32"
    using unsigned_less [of y] by simp
  ultimately show "((tri, y + 1, st'), (tri, y, st))
      \<in> measure (\<lambda>(tri, y, st). 2 ^ 32 - unat y)"
    by simp
qed

declare raster_cols.simps [simp del] raster_rows.simps [simp del]

definition rasterize :: "Triangle \<Rightarrow> Frame \<Rightarrow> raster_state option" where
  "rasterize tri f = raster_rows tri 0 \<lparr>frame = f, trace = []\<rparr>"

subsection \<open>The program\<close>

definition main_fill :: vec3 where
  "main_fill =
     Array3 (f32_of_double_literal 32 100) (f32_of_double_literal 32 100)
            (f32_of_double_literal 32 100)"

definition main_frame :: Frame where
  "main_frame = Frame_init 1024 1024 main_fill"

definition main_tri :: Triangle where
  "main_tri =
     \<lparr>vertices =
        Array3 (Array3 (f32_of_nat 80) (f32_of_nat 80) (f32_of_nat 100))
               (Array3 (f32_of_nat 160) (f32_of_nat 800) (f32_of_nat 100))
               (Array3 (f32_of_nat 480) (f32_of_nat 320) (f32_of_nat 100)),
      colors =
        Array3 (Array3 (f32_of_double_literal 84 100) (f32_of_double_literal 84 100)
                       (f32_of_double_literal 0 1))
               (Array3 (f32_of_double_literal 0 1) (f32_of_double_literal 84 100)
                       (f32_of_double_literal 84 100))
               (Array3 (f32_of_double_literal 84 100) (f32_of_double_literal 0 1)
                       (f32_of_double_literal 84 100))\<rparr>"

text \<open>The text written to \<^verbatim>\<open>ppm/triangle.ppm\<close>.\<close>

definition main :: "string option" where
  "main = Option.bind (rasterize main_tri main_frame) (\<lambda>st. writeBuffer (frame st))"

section \<open>The quantities of one pixel\<close>

text \<open>
  The local variables of the loop body as functions of the triangle and the pixel, each
  with the expression the source gives it; \<open>raster_pixel_eq\<close> below shows that the loop
  body computes exactly these.
\<close>

definition pix :: "u32 \<Rightarrow> u32 \<Rightarrow> vec3" where
  "pix x y = Array3 (f32_of_nat (unat x)) (f32_of_nat (unat y)) f32_zero"

definition ray_dir :: vec3 where
  "ray_dir = Array3 f32_zero f32_zero f32_one"

definition edge_u :: "Triangle \<Rightarrow> vec3" where
  "edge_u tri = vsub (at1 (vertices tri)) (at0 (vertices tri))"

definition edge_v :: "Triangle \<Rightarrow> vec3" where
  "edge_v tri = vsub (at2 (vertices tri)) (at0 (vertices tri))"

definition plane_n :: "Triangle \<Rightarrow> vec3" where
  "plane_n tri = cross ray_dir (edge_v tri)"

definition det :: "Triangle \<Rightarrow> f32" where
  "det tri = dot (edge_u tri) (plane_n tri)"

definition pix_s :: "Triangle \<Rightarrow> u32 \<Rightarrow> u32 \<Rightarrow> vec3" where
  "pix_s tri x y = vsub (pix x y) (at0 (vertices tri))"

definition pix_r :: "Triangle \<Rightarrow> u32 \<Rightarrow> u32 \<Rightarrow> vec3" where
  "pix_r tri x y = cross (pix_s tri x y) (edge_u tri)"

definition ray_d :: "Triangle \<Rightarrow> u32 \<Rightarrow> u32 \<Rightarrow> f32" where
  "ray_d tri x y = fdiv (dot (edge_v tri) (pix_r tri x y)) (det tri)"

definition beta :: "Triangle \<Rightarrow> u32 \<Rightarrow> u32 \<Rightarrow> f32" where
  "beta tri x y = fdiv (dot (pix_s tri x y) (plane_n tri)) (det tri)"

definition gamma :: "Triangle \<Rightarrow> u32 \<Rightarrow> u32 \<Rightarrow> f32" where
  "gamma tri x y = fdiv (dot ray_dir (pix_r tri x y)) (det tri)"

definition alpha :: "Triangle \<Rightarrow> u32 \<Rightarrow> u32 \<Rightarrow> f32" where
  "alpha tri x y = fsub f32_one (fadd (beta tri x y) (gamma tri x y))"

text \<open>The test of line 135: the pixel is covered when none of the five rejections fires.\<close>

definition covered :: "Triangle \<Rightarrow> u32 \<Rightarrow> u32 \<Rightarrow> bool" where
  "covered tri x y \<longleftrightarrow>
     \<not> (fle (det tri) eps1 \<or> flt (alpha tri x y) (fneg eps2) \<or> flt (beta tri x y) (fneg eps2)
        \<or> flt (gamma tri x y) (fneg eps2) \<or> fle (ray_d tri x y) (f32_literal 1 10))"

definition shade :: "Triangle \<Rightarrow> u32 \<Rightarrow> u32 \<Rightarrow> vec3" where
  "shade tri x y =
     vadd (vadd (vscale (at0 (colors tri)) (alpha tri x y))
                (vscale (at1 (colors tri)) (beta tri x y)))
          (vscale (at2 (colors tri)) (gamma tri x y))"

definition pixel_divisions :: "Triangle \<Rightarrow> u32 \<Rightarrow> u32 \<Rightarrow> event list" where
  "pixel_divisions tri x y =
     [Divide (dot (edge_v tri) (pix_r tri x y)) (det tri),
      Divide (dot (pix_s tri x y) (plane_n tri)) (det tri),
      Divide (dot ray_dir (pix_r tri x y)) (det tri)]"

definition pixel_events :: "Triangle \<Rightarrow> u32 \<Rightarrow> u32 \<Rightarrow> event list" where
  "pixel_events tri x y =
     pixel_divisions tri x y @ (if covered tri x y then [SetPixel x y (shade tri x y)] else [])"

text \<open>
  The pixels in the order the two loops visit them, and the loop body run over a list
  of pixels.
\<close>

definition row_pixels :: "u32 \<Rightarrow> nat \<Rightarrow> u32 \<Rightarrow> (u32 \<times> u32) list" where
  "row_pixels w i y = map (\<lambda>k. (of_nat k, y)) [i..<unat w]"

definition frame_pixels :: "u32 \<Rightarrow> u32 \<Rightarrow> nat \<Rightarrow> (u32 \<times> u32) list" where
  "frame_pixels w h j = concat (map (\<lambda>k. row_pixels w 0 (of_nat k)) [j..<unat h])"

fun raster_list :: "Triangle \<Rightarrow> (u32 \<times> u32) list \<Rightarrow> raster_state \<Rightarrow> raster_state option" where
  "raster_list tri [] st = Some st"
| "raster_list tri (p # ps) st =
     (case raster_pixel tri (fst p) (snd p) st of
        None \<Rightarrow> None
      | Some st' \<Rightarrow> raster_list tri ps st')"

text \<open>
  A frame is well formed when its buffer is the \<open>WIDTH\<close> by \<open>HEIGHT\<close> grid and the
  number of cells fits the 32-bit index arithmetic.
\<close>

definition wf_frame :: "Frame \<Rightarrow> bool" where
  "wf_frame f \<longleftrightarrow>
     length (buffer f) = unat (WIDTH f) * unat (HEIGHT f)
     \<and> unat (WIDTH f) * unat (HEIGHT f) < 2 ^ 32"

section \<open>The image text as the specification words it\<close>

text \<open>
  The exported image, stated without the loops: the header line, then the rows from
  \<open>y = HEIGHT - 1\<close> down to \<open>y = 0\<close>, each row from \<open>x = 0\<close> to \<open>x = WIDTH - 1\<close>,
  each pixel as its three channels and a line end. A channel is the stored component times
  255 (the single-precision product), truncated toward zero; nothing is rounded to the
  nearest integer and nothing is clamped.
\<close>

definition trunc_f32 :: "f32 \<Rightarrow> int" where
  "trunc_f32 c = (case c of Fin s k \<Rightarrow> sval s (k div 2 ^ 149) | _ \<Rightarrow> 0)"

definition channel_value :: "f32 \<Rightarrow> int" where
  "channel_value c = trunc_f32 (fmul c (f32_of_nat 255))"

definition pixel_line :: "vec3 \<Rightarrow> string" where
  "pixel_line p =
     dec_int (channel_value (at0 p)) @ '' '' @ dec_int (channel_value (at1 p)) @ '' ''
     @ dec_int (channel_value (at2 p)) @ endl"

definition image_header :: "Frame \<Rightarrow> string" where
  "image_header f =
     ''P3 '' @ dec_nat (unat (WIDTH f)) @ '' '' @ dec_nat (unat (HEIGHT f)) @ '' 255'' @ endl"

definition image_row :: "Frame \<Rightarrow> nat \<Rightarrow> string" where
  "image_row f y =
     concat (map (\<lambda>x. pixel_line (buffer f ! (x + y * unat (WIDTH f)))) [0..<unat (WIDTH f)])"

definition image_text :: "Frame \<Rightarrow> string" where
  "image_text f = image_header f @ concat (map (image_row f) (rev [0..<unat (HEIGHT f)]))"

text \<open>
  A colour can be printed when each channel, times 255, is a finite value in the range
  of \<^verbatim>\<open>int\<close>; the conversion \<^verbatim>\<open>(int)\<close> is undefined otherwise.
\<close>

definition printable :: "vec3 \<Rightarrow> bool" where
  "printable p \<longleftrightarrow>
     int_of_f32 (fmul (at0 p) (f32_of_nat 255)) \<noteq> None
     \<and> int_of_f32 (fmul (at1 p) (f32_of_nat 255)) \<noteq> None
     \<and> int_of_f32 (fmul (at2 p) (f32_of_nat 255)) \<noteq> None"

section \<open>Classes of values\<close>

fun is_finite :: "f32 \<Rightarrow> bool" where
  "is_finite (Fin s k) = True"
| "is_finite _ = False"

fun is_zero :: "f32 \<Rightarrow> bool" where
  "is_zero (Fin s k) = (k = 0)"
| "is_zero _ = False"

definition vfinite :: "vec3 \<Rightarrow> bool" where
  "vfinite v \<longleftrightarrow> is_finite (at0 v) \<and> is_finite (at1 v) \<and> is_finite (at2 v)"

text \<open>
  The multiples of the unit that a binary32 significand of 24 bits can hold, and the
  values of the type that are binary32 values.
\<close>

definition representable :: "nat \<Rightarrow> bool" where
  "representable k \<longleftrightarrow> (\<exists>m j. k = m * 2 ^ j \<and> m \<le> 2 ^ 24)"

fun is_f32 :: "f32 \<Rightarrow> bool" where
  "is_f32 (Fin s k) = (representable k \<and> k < 2 ^ 277)"
| "is_f32 _ = True"

text \<open>
  Magnitude bounds: \<open>fits e x\<close> says that \<open>x\<close> is finite and at most \<open>2 ^ e\<close> units in
  magnitude, that is \<open>|x| \<le> 2 ^ (e - 149)\<close>; \<open>vfits\<close> says so of the three components.
\<close>

fun fits :: "nat \<Rightarrow> f32 \<Rightarrow> bool" where
  "fits e (Fin s k) = (k \<le> 2 ^ e)"
| "fits e _ = False"

definition vfits :: "nat \<Rightarrow> vec3 \<Rightarrow> bool" where
  "vfits e v \<longleftrightarrow> fits e (at0 v) \<and> fits e (at1 v) \<and> fits e (at2 v)"

section \<open>Evaluation\<close>

text \<open>
  Two auxiliary constants for evaluating the arithmetic on numerals: the bit length as an
  \<open>int\<close>, and the rounding of \<open>n / 2 ^ e\<close>, where the quotient is a shift.
\<close>

definition bit_length_int :: "nat \<Rightarrow> int" where
  "bit_length_int n = int (bit_length n)"

definition round_dyadic :: "bool \<Rightarrow> nat \<Rightarrow> nat \<Rightarrow> f32" where
  "round_dyadic s n e = f32_round s n (2 ^ e)"

section \<open>The view plane\<close>

text \<open>
  The exact value of a finite float, the projection of a vertex along the viewing axis,
  and the convex hull of the projected triangle: the points that are a combination of the
  three vertices with non-negative weights of sum 1.
\<close>

definition valof :: "f32 \<Rightarrow> real" where
  "valof x = (case x of Fin s k \<Rightarrow> (if s then - real k else real k) / 2 ^ 149 | _ \<Rightarrow> 0)"

definition view_point :: "vec3 \<Rightarrow> real \<times> real" where
  "view_point v = (valof (at0 v), valof (at1 v))"

definition in_hull :: "real \<times> real \<Rightarrow> real \<times> real \<Rightarrow> real \<times> real \<Rightarrow> real \<times> real \<Rightarrow> bool" where
  "in_hull p a b c \<longleftrightarrow>
     (\<exists>wa wb wc. 0 \<le> wa \<and> 0 \<le> wb \<and> 0 \<le> wc \<and> wa + wb + wc = 1
        \<and> fst p = wa * fst a + wb * fst b + wc * fst c
        \<and> snd p = wa * snd a + wb * snd b + wc * snd c)"

definition outside_hull :: "Triangle \<Rightarrow> u32 \<Rightarrow> u32 \<Rightarrow> bool" where
  "outside_hull tri x y \<longleftrightarrow>
     \<not> in_hull (real (unat x), real (unat y))
         (view_point (at0 (vertices tri))) (view_point (at1 (vertices tri)))
         (view_point (at2 (vertices tri)))"

section \<open>Sample inputs\<close>

text \<open>Three equal vertices at the origin.\<close>

definition point_tri :: Triangle where
  "point_tri =
     \<lparr>vertices = Array3 (Array3 f32_zero f32_zero f32_zero) (Array3 f32_zero f32_zero f32_zero)
                         (Array3 f32_zero f32_zero f32_zero),
      colors = colors main_tri\<rparr>"

text \<open>A vertex that holds NaN.\<close>

definition nan_tri :: Triangle where
  "nan_tri =
     \<lparr>vertices = Array3 (Array3 NaN NaN NaN) (Array3 f32_zero f32_one f32_zero)
                         (Array3 f32_one f32_zero f32_zero),
      colors = colors main_tri\<rparr>"

text \<open>Vertices 1 and 2 are the same point \<open>(2 ^ 64, 2 ^ 64, 0)\<close>; vertex 0 is the origin.\<close>

definition far_tri :: Triangle where
  "far_tri =
     \<lparr>vertices = Array3 (Array3 f32_zero f32_zero f32_zero)
                         (Array3 (f32_of_nat (2 ^ 64)) (f32_of_nat (2 ^ 64)) f32_zero)
                         (Array3 (f32_of_nat (2 ^ 64)) (f32_of_nat (2 ^ 64)) f32_zero),
      colors = colors main_tri\<rparr>"

text \<open>Vertices 1 and 2 are the same point \<open>(1, 1, 0)\<close>; vertex 0 is the origin.\<close>

definition flat_tri :: Triangle where
  "flat_tri =
     \<lparr>vertices = Array3 (Array3 f32_zero f32_zero f32_zero) (Array3 f32_one f32_one f32_zero)
                         (Array3 f32_one f32_one f32_zero),
      colors = colors main_tri\<rparr>"

text \<open>
  The triangle \<open>(1/2, 1/2, 1)\<close>, \<open>(1/2, 2 ^ 33, 1)\<close>, \<open>(2 ^ 33, 1/2, 1)\<close>: the pixel
  \<open>(0, 0)\<close> lies outside it, half a pixel from the corner.
\<close>

definition wide_tri :: Triangle where
  "wide_tri =
     \<lparr>vertices = Array3 (Array3 (f32_literal 1 2) (f32_literal 1 2) f32_one)
                         (Array3 (f32_literal 1 2) (f32_of_nat (2 ^ 33)) f32_one)
                         (Array3 (f32_of_nat (2 ^ 33)) (f32_literal 1 2) f32_one),
      colors = colors main_tri\<rparr>"

text \<open>Two colours, and frames whose dimensions strain the 32-bit arithmetic.\<close>

definition black :: vec3 where
  "black = Array3 f32_zero f32_zero f32_zero"

definition white :: vec3 where
  "white = Array3 f32_one f32_one f32_one"

definition wrapped_frame :: Frame where
  "wrapped_frame = Frame_init 0xFFFFFFFF 0xFFFFFFFF black"

definition tall_frame :: Frame where
  "tall_frame = Frame_init 1 0x80000001 black"

text \<open>
  A 2 by 2 frame with four different pixels, one of them with components \<open>2\<close> and
  \<open>-1\<close>, outside \<open>[0, 1]\<close>.
\<close>

definition sample_frame :: Frame where
  "sample_frame =
     \<lparr>WIDTH = 2, HEIGHT = 2,
      buffer = [black, white, main_fill, Array3 (f32_of_nat 2) (fneg f32_one) f32_zero]\<rparr>"

section \<open>The loop body and the loops\<close>

lemma raster_pixel_eq0:
  "raster_pixel tri x y st =
     (if covered tri x y
      then (case setPixel (frame st) x y (shade tri x y) of
              None \<Rightarrow> None
            | Some f' \<Rightarrow> Some \<lparr>frame = f',
                trace = trace st @ pixel_divisions tri x y @ [SetPixel x y (shade tri x y)]\<rparr>)
      else Some (st\<lparr>trace := trace st @ pixel_divisions tri x y\<rparr>))"
  by (simp add: raster_pixel_def covered_def shade_def pixel_divisions_def
      alpha_def beta_def gamma_def ray_d_def pix_r_def pix_s_def det_def plane_n_def edge_u_def
      edge_v_def ray_dir_def pix_def divide_def Let_def split: option.split)

lemma raster_pixel_eq:
  "raster_pixel tri x y st =
     (if covered tri x y
      then (case setPixel (frame st) x y (shade tri x y) of
              None \<Rightarrow> None
            | Some f' \<Rightarrow> Some \<lparr>frame = f', trace = trace st @ pixel_events tri x y\<rparr>)
      else Some (st\<lparr>trace := trace st @ pixel_events tri x y\<rparr>))"
  by (simp add: raster_pixel_eq0 pixel_events_def split: option.split)

lemma word_suc: "(x :: u32) < w \<Longrightarrow> unat (x + 1) = Suc (unat x)"
proof -
  assume "x < w"
  then have "x \<noteq> - 1"
    by (metis word_order.extremum_strict)
  then have "1 + x \<noteq> 0"
    by (metis add_eq_0_iff)
  then show ?thesis
    by (simp add: unatSuc add.commute)
qed

lemma raster_pixel_dims:
  "raster_pixel tri x y st = Some st' \<Longrightarrow>
     WIDTH (frame st') = WIDTH (frame st) \<and> HEIGHT (frame st') = HEIGHT (frame st)
     \<and> length (buffer (frame st')) = length (buffer (frame st))"
  by (auto simp: raster_pixel_eq setPixel_def split: if_splits option.splits)

lemma raster_cols_list:
  "raster_cols tri y x st = raster_list tri (row_pixels (WIDTH (frame st)) (unat x) y) st"
proof (induction tri y x st rule: raster_cols.induct)
  case (1 tri y x st)
  show ?case
  proof (cases "x < WIDTH (frame st)")
    case False
    then have "unat (WIDTH (frame st)) \<le> unat x"
      by (simp add: word_less_nat_alt)
    with False show ?thesis
      by (subst raster_cols.simps) (simp add: row_pixels_def)
  next
    case True
    then have lt: "unat x < unat (WIDTH (frame st))"
      by (simp add: word_less_nat_alt)
    have suc: "unat (x + 1) = Suc (unat x)"
      using True by (rule word_suc)
    have rp: "row_pixels (WIDTH (frame st)) (unat x) y =
        (x, y) # row_pixels (WIDTH (frame st)) (unat (x + 1)) y"
      using lt by (simp add: row_pixels_def upt_conv_Cons suc)
    show ?thesis
    proof (cases "raster_pixel tri x y st")
      case None
      with True rp show ?thesis
        by (subst raster_cols.simps) simp
    next
      case (Some st')
      have "WIDTH (frame st') = WIDTH (frame st)"
        using raster_pixel_dims [OF Some] by simp
      with "1.IH" [OF True Some] True Some rp show ?thesis
        by (subst raster_cols.simps) simp
    qed
  qed
qed

lemma raster_list_append:
  "raster_list tri (ps @ qs) st =
     (case raster_list tri ps st of None \<Rightarrow> None | Some st' \<Rightarrow> raster_list tri qs st')"
  by (induction ps arbitrary: st) (auto split: option.splits)

lemma raster_list_dims:
  "raster_list tri ps st = Some st' \<Longrightarrow>
     WIDTH (frame st') = WIDTH (frame st) \<and> HEIGHT (frame st') = HEIGHT (frame st)
     \<and> length (buffer (frame st')) = length (buffer (frame st))"
proof (induction ps arbitrary: st)
  case Nil
  then show ?case by simp
next
  case (Cons p ps)
  then obtain st1 where 1: "raster_pixel tri (fst p) (snd p) st = Some st1"
    and 2: "raster_list tri ps st1 = Some st'"
    by (auto split: option.splits)
  from Cons.IH [OF 2] raster_pixel_dims [OF 1] show ?case
    by simp
qed

lemma frame_pixels_step:
  assumes "j < unat h"
  shows "frame_pixels w h j = row_pixels w 0 (of_nat j) @ frame_pixels w h (Suc j)"
  using assms by (simp add: frame_pixels_def upt_conv_Cons)

lemma raster_rows_list:
  "raster_rows tri y st =
     raster_list tri (frame_pixels (WIDTH (frame st)) (HEIGHT (frame st)) (unat y)) st"
proof (induction tri y st rule: raster_rows.induct)
  case (1 tri y st)
  show ?case
  proof (cases "y < HEIGHT (frame st)")
    case False
    then have "unat (HEIGHT (frame st)) \<le> unat y"
      by (simp add: word_less_nat_alt)
    with False show ?thesis
      by (subst raster_rows.simps) (simp add: frame_pixels_def)
  next
    case True
    then have lt: "unat y < unat (HEIGHT (frame st))"
      by (simp add: word_less_nat_alt)
    have suc: "unat (y + 1) = Suc (unat y)"
      using True by (rule word_suc)
    have fp: "frame_pixels (WIDTH (frame st)) (HEIGHT (frame st)) (unat y) =
        row_pixels (WIDTH (frame st)) 0 y
        @ frame_pixels (WIDTH (frame st)) (HEIGHT (frame st)) (unat (y + 1))"
      using frame_pixels_step [OF lt] by (simp add: suc)
    have cols: "raster_cols tri y 0 st = raster_list tri (row_pixels (WIDTH (frame st)) 0 y) st"
      using raster_cols_list [of tri y 0 st] by simp
    show ?thesis
    proof (cases "raster_cols tri y 0 st")
      case None
      with True fp cols show ?thesis
        by (subst raster_rows.simps) (simp add: raster_list_append)
    next
      case (Some st')
      have "WIDTH (frame st') = WIDTH (frame st)" "HEIGHT (frame st') = HEIGHT (frame st)"
        using raster_list_dims [of tri _ st st'] Some cols by simp_all
      with "1.IH" [OF True Some] True Some fp cols show ?thesis
        by (subst raster_rows.simps) (simp add: raster_list_append)
    qed
  qed
qed

lemma rasterize_list:
  "rasterize tri f = raster_list tri (frame_pixels (WIDTH f) (HEIGHT f) 0) \<lparr>frame = f, trace = []\<rparr>"
  by (simp add: rasterize_def raster_rows_list)

lemma raster_list_trace:
  "raster_list tri ps st = Some st' \<Longrightarrow>
     trace st' = trace st @ concat (map (\<lambda>p. pixel_events tri (fst p) (snd p)) ps)"
proof (induction ps arbitrary: st)
  case Nil
  then show ?case by simp
next
  case (Cons p ps)
  then obtain st1 where 1: "raster_pixel tri (fst p) (snd p) st = Some st1"
    and 2: "raster_list tri ps st1 = Some st'"
    by (auto split: option.splits)
  have "trace st1 = trace st @ pixel_events tri (fst p) (snd p)"
    using 1 by (auto simp: raster_pixel_eq split: if_splits option.splits)
  with Cons.IH [OF 2] show ?case
    by simp
qed

lemma raster_list_defined:
  assumes "\<forall>p \<in> set ps. pixel_index (frame st) (fst p) (snd p) < length (buffer (frame st))"
  shows "\<exists>st'. raster_list tri ps st = Some st'"
  using assms
proof (induction ps arbitrary: st)
  case Nil
  then show ?case by simp
next
  case (Cons p ps)
  from Cons.prems have "pixel_index (frame st) (fst p) (snd p) < length (buffer (frame st))"
    by simp
  then have "\<exists>st1. raster_pixel tri (fst p) (snd p) st = Some st1"
    by (simp add: raster_pixel_eq setPixel_def)
  then obtain st1 where 1: "raster_pixel tri (fst p) (snd p) st = Some st1" ..
  from raster_pixel_dims [OF 1] Cons.prems
  have "\<forall>q \<in> set ps. pixel_index (frame st1) (fst q) (snd q) < length (buffer (frame st1))"
    by (simp add: pixel_index_def)
  from Cons.IH [OF this] 1 show ?case
    by simp
qed

lemma raster_pixel_buffer:
  assumes "raster_pixel tri x y st = Some st'"
  shows "buffer (frame st') =
     (if covered tri x y then (buffer (frame st))[pixel_index (frame st) x y := shade tri x y]
      else buffer (frame st))"
  using assms by (auto simp: raster_pixel_eq setPixel_def split: if_splits option.splits)

lemma raster_list_untouched:
  assumes "raster_list tri ps st = Some st'"
    and "\<forall>p \<in> set ps. covered tri (fst p) (snd p) \<longrightarrow> pixel_index (frame st) (fst p) (snd p) \<noteq> i"
  shows "buffer (frame st') ! i = buffer (frame st) ! i"
  using assms
proof (induction ps arbitrary: st)
  case Nil
  then show ?case by simp
next
  case (Cons p ps)
  then obtain st1 where 1: "raster_pixel tri (fst p) (snd p) st = Some st1"
    and 2: "raster_list tri ps st1 = Some st'"
    by (auto split: option.splits)
  have w: "WIDTH (frame st1) = WIDTH (frame st)"
    using raster_pixel_dims [OF 1] by simp
  have "\<forall>q \<in> set ps. covered tri (fst q) (snd q) \<longrightarrow> pixel_index (frame st1) (fst q) (snd q) \<noteq> i"
    using Cons.prems(2) w by (simp add: pixel_index_def)
  from Cons.IH [OF 2 this] have "buffer (frame st') ! i = buffer (frame st1) ! i" .
  also have "\<dots> = buffer (frame st) ! i"
    using raster_pixel_buffer [OF 1] Cons.prems(2) by simp
  finally show ?case .
qed

lemma raster_list_written:
  assumes "raster_list tri ps st = Some st'"
    and "distinct (map (\<lambda>p. pixel_index (frame st) (fst p) (snd p)) ps)"
    and "p \<in> set ps" and "covered tri (fst p) (snd p)"
  shows "buffer (frame st') ! pixel_index (frame st) (fst p) (snd p) = shade tri (fst p) (snd p)"
  using assms
proof (induction ps arbitrary: st)
  case Nil
  then show ?case by simp
next
  case (Cons q ps)
  then obtain st1 where 1: "raster_pixel tri (fst q) (snd q) st = Some st1"
    and 2: "raster_list tri ps st1 = Some st'"
    by (auto split: option.splits)
  have w: "WIDTH (frame st1) = WIDTH (frame st)"
    using raster_pixel_dims [OF 1] by simp
  then have ix: "\<And>a b. pixel_index (frame st1) a b = pixel_index (frame st) a b"
    by (simp add: pixel_index_def)
  have d: "distinct (map (\<lambda>p. pixel_index (frame st1) (fst p) (snd p)) ps)"
    using Cons.prems(2) by (simp add: ix)
  show ?case
  proof (cases "p \<in> set ps")
    case True
    from Cons.IH [OF 2 d True Cons.prems(4)] show ?thesis
      by (simp add: ix)
  next
    case False
    with Cons.prems(3) have pq: "p = q" by simp
    have "pixel_index (frame st) (fst q) (snd q)
        \<notin> (\<lambda>p. pixel_index (frame st) (fst p) (snd p)) ` set ps"
      using Cons.prems(2) by simp
    then have "\<forall>r \<in> set ps.
        pixel_index (frame st) (fst r) (snd r) \<noteq> pixel_index (frame st) (fst q) (snd q)"
      unfolding image_iff by fastforce
    then have "\<forall>r \<in> set ps. covered tri (fst r) (snd r) \<longrightarrow>
        pixel_index (frame st1) (fst r) (snd r) \<noteq> pixel_index (frame st) (fst p) (snd p)"
      by (simp add: ix pq)
    from raster_list_untouched [OF 2 this]
    have "buffer (frame st') ! pixel_index (frame st) (fst p) (snd p)
        = buffer (frame st1) ! pixel_index (frame st) (fst p) (snd p)" .
    moreover have "pixel_index (frame st) (fst p) (snd p) < length (buffer (frame st))"
      using 1 Cons.prems(4) pq by (auto simp: raster_pixel_eq setPixel_def split: if_splits)
    ultimately show ?thesis
      using raster_pixel_buffer [OF 1] Cons.prems(4) pq by simp
  qed
qed

subsection \<open>Pixel indices\<close>

lemma pixel_index_wf:
  assumes "wf_frame f" and "x < WIDTH f" and "y < HEIGHT f"
  shows "pixel_index f x y = unat x + unat y * unat (WIDTH f)"
    and "pixel_index f x y < length (buffer f)"
proof -
  have x: "unat x < unat (WIDTH f)" and y: "unat y < unat (HEIGHT f)"
    using assms(2,3) by (simp_all add: word_less_nat_alt)
  have len: "length (buffer f) = unat (WIDTH f) * unat (HEIGHT f)"
    and small: "unat (WIDTH f) * unat (HEIGHT f) < 2 ^ 32"
    using assms(1) by (simp_all add: wf_frame_def)
  have "unat x + unat y * unat (WIDTH f) < unat (WIDTH f) + unat y * unat (WIDTH f)"
    using x by simp
  also have "\<dots> = Suc (unat y) * unat (WIDTH f)"
    by simp
  also have "\<dots> \<le> unat (HEIGHT f) * unat (WIDTH f)"
    using y by (intro mult_le_mono1) simp
  finally have bound: "unat x + unat y * unat (WIDTH f) < unat (WIDTH f) * unat (HEIGHT f)"
    by (simp add: mult.commute)
  then have "unat y * unat (WIDTH f) < 2 ^ 32"
    using small by simp
  then have m: "unat (y * WIDTH f) = unat y * unat (WIDTH f)"
    using unat_mult_lem [of y "WIDTH f"] by simp
  have "unat x + unat (y * WIDTH f) < 2 ^ 32"
    using bound small m by simp
  then have "unat (x + y * WIDTH f) = unat x + unat (y * WIDTH f)"
    using unat_add_lem [of x "y * WIDTH f"] by simp
  with m show "pixel_index f x y = unat x + unat y * unat (WIDTH f)"
    by (simp add: pixel_index_def)
  with bound len show "pixel_index f x y < length (buffer f)"
    by simp
qed

lemma pixel_index_inj:
  assumes "wf_frame f" and "x < WIDTH f" and "y < HEIGHT f"
    and "x' < WIDTH f" and "y' < HEIGHT f"
    and "pixel_index f x y = pixel_index f x' y'"
  shows "x = x' \<and> y = y'"
proof -
  let ?w = "unat (WIDTH f)"
  have x: "unat x < ?w" and x': "unat x' < ?w"
    using assms(2,4) by (simp_all add: word_less_nat_alt)
  have e: "unat x + unat y * ?w = unat x' + unat y' * ?w"
    using assms(6) pixel_index_wf(1) [OF assms(1,2,3)] pixel_index_wf(1) [OF assms(1,4,5)]
    by simp
  from e have "(unat x + unat y * ?w) mod ?w = (unat x' + unat y' * ?w) mod ?w"
    by simp
  then have 1: "unat x = unat x'"
    using x x' by simp
  from e have "(unat x + unat y * ?w) div ?w = (unat x' + unat y' * ?w) div ?w"
    by simp
  then have 2: "unat y = unat y'"
    using x x' by simp
  from 1 2 show ?thesis
    by (simp add: word_unat_eq_iff)
qed

lemma of_nat_unat_less:
  assumes "i < unat (w :: u32)"
  shows "unat (of_nat i :: u32) = i" and "(of_nat i :: u32) < w"
proof -
  have "unat w < 2 ^ 32"
    using unsigned_less [of w] by simp
  with assms have "i < 2 ^ 32"
    by simp
  then show 1: "unat (of_nat i :: u32) = i"
    by (simp add: unat_of_nat)
  with assms show "(of_nat i :: u32) < w"
    by (simp add: word_less_nat_alt)
qed

lemma set_row_pixels: "set (row_pixels w 0 y) = {(x, y') | x y'. x < w \<and> y' = y}"
proof (rule set_eqI)
  fix p :: "u32 \<times> u32"
  show "p \<in> set (row_pixels w 0 y) \<longleftrightarrow> p \<in> {(x, y') | x y'. x < w \<and> y' = y}"
  proof
    assume "p \<in> set (row_pixels w 0 y)"
    then obtain i where "i < unat w" and "p = (of_nat i, y)"
      by (auto simp: row_pixels_def)
    with of_nat_unat_less(2) [of i w] show "p \<in> {(x, y') | x y'. x < w \<and> y' = y}"
      by simp
  next
    assume "p \<in> {(x, y') | x y'. x < w \<and> y' = y}"
    then obtain x where "x < w" and p: "p = (x, y)"
      by auto
    then have "unat x < unat w"
      by (simp add: word_less_nat_alt)
    then have "(x, y) \<in> (\<lambda>k. (of_nat k :: u32, y)) ` set [0..<unat w]"
      by (intro image_eqI [where x = "unat x"]) simp_all
    then have "(x, y) \<in> set (row_pixels w 0 y)"
      by (simp add: row_pixels_def)
    with p show "p \<in> set (row_pixels w 0 y)"
      by simp
  qed
qed

lemma set_frame_pixels: "set (frame_pixels w h 0) = {(x, y). x < w \<and> y < h}"
proof (rule set_eqI)
  fix p :: "u32 \<times> u32"
  show "p \<in> set (frame_pixels w h 0) \<longleftrightarrow> p \<in> {(x, y). x < w \<and> y < h}"
  proof
    assume "p \<in> set (frame_pixels w h 0)"
    then obtain j where j: "j < unat h" and "p \<in> set (row_pixels w 0 (of_nat j))"
      by (auto simp: frame_pixels_def)
    then have "fst p < w" "snd p = of_nat j"
      by (auto simp: set_row_pixels)
    with of_nat_unat_less(2) [OF j] show "p \<in> {(x, y). x < w \<and> y < h}"
      by (cases p) simp
  next
    assume "p \<in> {(x, y). x < w \<and> y < h}"
    then obtain x y where p: "p = (x, y)" and x: "x < w" and y: "y < h"
      by auto
    have "unat y < unat h"
      using y by (simp add: word_less_nat_alt)
    moreover have "(x, y) \<in> set (row_pixels w 0 (of_nat (unat y)))"
      using x by (simp add: set_row_pixels)
    ultimately show "p \<in> set (frame_pixels w h 0)"
      unfolding frame_pixels_def p by (auto intro!: bexI [where x = "unat y"])
  qed
qed

lemma concat_rows: "concat (map (\<lambda>k. [k * w ..< k * w + w]) [0..<n]) = [0..<n * w]"
proof (induction n)
  case 0
  then show ?case by simp
next
  case (Suc n)
  have "[0..<Suc n * w] = [0..<n * w] @ [n * w ..< n * w + w]"
    using upt_add_eq_append [of 0 "n * w" w] by (simp add: add.commute)
  with Suc show ?case
    by simp
qed

lemma index_frame_pixels:
  assumes "wf_frame f"
  shows "map (\<lambda>p. pixel_index f (fst p) (snd p)) (frame_pixels (WIDTH f) (HEIGHT f) 0)
    = [0..<unat (WIDTH f) * unat (HEIGHT f)]"
proof -
  let ?w = "unat (WIDTH f)"
  have row: "map (\<lambda>p. pixel_index f (fst p) (snd p)) (row_pixels (WIDTH f) 0 (of_nat j))
      = [j * ?w ..< j * ?w + ?w]" if j: "j < unat (HEIGHT f)" for j
  proof -
    have "map (\<lambda>p. pixel_index f (fst p) (snd p)) (row_pixels (WIDTH f) 0 (of_nat j))
        = map (\<lambda>i. pixel_index f (of_nat i) (of_nat j)) [0..<?w]"
      by (simp add: row_pixels_def comp_def)
    also have "\<dots> = map (\<lambda>i. i + j * ?w) [0..<?w]"
    proof (rule map_cong [OF refl])
      fix i assume "i \<in> set [0..<?w]"
      then have i: "i < ?w" by simp
      show "pixel_index f (of_nat i) (of_nat j) = i + j * ?w"
        using pixel_index_wf(1) [OF assms of_nat_unat_less(2) [OF i] of_nat_unat_less(2) [OF j]]
          of_nat_unat_less(1) [OF i] of_nat_unat_less(1) [OF j]
        by simp
    qed
    also have "\<dots> = [j * ?w ..< j * ?w + ?w]"
      by (simp add: map_add_upt add.commute)
    finally show ?thesis .
  qed
  have "map (\<lambda>p. pixel_index f (fst p) (snd p)) (frame_pixels (WIDTH f) (HEIGHT f) 0)
      = concat (map (\<lambda>k. map (\<lambda>p. pixel_index f (fst p) (snd p))
          (row_pixels (WIDTH f) 0 (of_nat k))) [0..<unat (HEIGHT f)])"
    by (simp add: frame_pixels_def map_concat comp_def)
  also have "\<dots> = concat (map (\<lambda>k. [k * ?w ..< k * ?w + ?w]) [0..<unat (HEIGHT f)])"
    by (rule arg_cong [where f = concat], rule map_cong [OF refl]) (simp add: row)
  also have "\<dots> = [0..<unat (HEIGHT f) * ?w]"
    by (rule concat_rows)
  finally show ?thesis
    by (simp add: mult.commute)
qed

subsection \<open>The result of rasterization\<close>

lemma rasterize_defined:
  assumes "wf_frame f"
  shows "\<exists>st. rasterize tri f = Some st"
proof -
  have "\<forall>p \<in> set (frame_pixels (WIDTH f) (HEIGHT f) 0).
      pixel_index f (fst p) (snd p) < length (buffer f)"
    using pixel_index_wf(2) [OF assms] by (auto simp: set_frame_pixels)
  then show ?thesis
    using raster_list_defined [of "frame_pixels (WIDTH f) (HEIGHT f) 0" "\<lparr>frame = f, trace = []\<rparr>" tri]
    by (simp add: rasterize_list)
qed

lemma rasterize_dims:
  assumes "rasterize tri f = Some st"
  shows "WIDTH (frame st) = WIDTH f" and "HEIGHT (frame st) = HEIGHT f"
    and "length (buffer (frame st)) = length (buffer f)"
  using raster_list_dims [of tri _ "\<lparr>frame = f, trace = []\<rparr>" st] assms
  by (simp_all add: rasterize_list)

lemma rasterize_trace:
  assumes "rasterize tri f = Some st"
  shows "trace st = concat (map (\<lambda>p. pixel_events tri (fst p) (snd p))
    (frame_pixels (WIDTH f) (HEIGHT f) 0))"
  using raster_list_trace [of tri _ "\<lparr>frame = f, trace = []\<rparr>" st] assms
  by (simp add: rasterize_list)

lemma SetPixel_in_trace:
  assumes "rasterize tri f = Some st"
  shows "SetPixel x y c \<in> set (trace st) \<longleftrightarrow>
    x < WIDTH f \<and> y < HEIGHT f \<and> covered tri x y \<and> c = shade tri x y"
proof -
  have "SetPixel x y c \<in> set (trace st) \<longleftrightarrow>
      (\<exists>p \<in> set (frame_pixels (WIDTH f) (HEIGHT f) 0).
         SetPixel x y c \<in> set (pixel_events tri (fst p) (snd p)))"
    by (simp add: rasterize_trace [OF assms])
  also have "\<dots> \<longleftrightarrow> (\<exists>p \<in> set (frame_pixels (WIDTH f) (HEIGHT f) 0).
      p = (x, y) \<and> covered tri x y \<and> c = shade tri x y)"
    by (rule bex_cong [OF refl])
      (auto simp: pixel_events_def pixel_divisions_def split: if_splits)
  also have "\<dots> \<longleftrightarrow> x < WIDTH f \<and> y < HEIGHT f \<and> covered tri x y \<and> c = shade tri x y"
    by (auto simp: set_frame_pixels)
  finally show ?thesis .
qed

lemma Divide_in_trace:
  assumes "rasterize tri f = Some st"
  shows "Divide n d \<in> set (trace st) \<longleftrightarrow>
    (\<exists>x y. x < WIDTH f \<and> y < HEIGHT f \<and> Divide n d \<in> set (pixel_divisions tri x y))"
proof -
  have "Divide n d \<in> set (trace st) \<longleftrightarrow>
      (\<exists>p \<in> set (frame_pixels (WIDTH f) (HEIGHT f) 0).
         Divide n d \<in> set (pixel_events tri (fst p) (snd p)))"
    by (simp add: rasterize_trace [OF assms])
  also have "\<dots> \<longleftrightarrow> (\<exists>p \<in> set (frame_pixels (WIDTH f) (HEIGHT f) 0).
      Divide n d \<in> set (pixel_divisions tri (fst p) (snd p)))"
    by (rule bex_cong [OF refl]) (auto simp: pixel_events_def split: if_splits)
  also have "\<dots> \<longleftrightarrow>
      (\<exists>x y. x < WIDTH f \<and> y < HEIGHT f \<and> Divide n d \<in> set (pixel_divisions tri x y))"
    by (auto simp: set_frame_pixels)
  finally show ?thesis .
qed

lemma rasterize_pixel:
  assumes wf: "wf_frame f" and run: "rasterize tri f = Some st"
    and x: "x < WIDTH f" and y: "y < HEIGHT f"
  shows "getPixel (frame st) x y =
    Some (if covered tri x y then shade tri x y else buffer f ! pixel_index f x y)"
proof -
  let ?ps = "frame_pixels (WIDTH f) (HEIGHT f) 0"
  let ?st0 = "\<lparr>frame = f, trace = []\<rparr>"
  have rl: "raster_list tri ?ps ?st0 = Some st"
    using run by (simp add: rasterize_list)
  have ix: "pixel_index (frame st) x y = pixel_index f x y"
    using rasterize_dims(1) [OF run] by (simp add: pixel_index_def)
  have inr: "pixel_index f x y < length (buffer (frame st))"
    using pixel_index_wf(2) [OF wf x y] rasterize_dims(3) [OF run] by simp
  have mem: "(x, y) \<in> set ?ps"
    using x y by (simp add: set_frame_pixels)
  have cell: "buffer (frame st) ! pixel_index f x y =
      (if covered tri x y then shade tri x y else buffer f ! pixel_index f x y)"
  proof (cases "covered tri x y")
    case True
    have "distinct (map (\<lambda>p. pixel_index (frame ?st0) (fst p) (snd p)) ?ps)"
      using index_frame_pixels [OF wf] by simp
    from raster_list_written [OF rl this mem] True show ?thesis
      by simp
  next
    case False
    have "\<forall>p \<in> set ?ps. covered tri (fst p) (snd p) \<longrightarrow>
        pixel_index (frame ?st0) (fst p) (snd p) \<noteq> pixel_index f x y"
    proof (intro ballI impI)
      fix p assume p: "p \<in> set ?ps" and c: "covered tri (fst p) (snd p)"
      from p have "fst p < WIDTH f" "snd p < HEIGHT f"
        by (auto simp: set_frame_pixels)
      with pixel_index_inj [OF wf this x y] c False
      show "pixel_index (frame ?st0) (fst p) (snd p) \<noteq> pixel_index f x y"
        by auto
    qed
    from raster_list_untouched [OF rl this] False show ?thesis
      by simp
  qed
  show ?thesis
    using inr cell by (simp add: getPixel_def ix)
qed

section \<open>The exported text\<close>

lemma int_of_f32_trunc: "int_of_f32 c = Some i \<Longrightarrow> trunc_f32 c = i"
  by (cases c) (auto simp: trunc_f32_def Let_def split: if_splits)

lemma channel_text_printable:
  assumes "getPixel f x y = Some p" and "printable p" and "sel = at0 \<or> sel = at1 \<or> sel = at2"
  shows "channel_text f x y sel = Some (dec_int (channel_value (sel p)))"
proof -
  from assms(2,3) obtain i where i: "int_of_f32 (fmul (sel p) (f32_of_nat 255)) = Some i"
    by (auto simp: printable_def)
  from int_of_f32_trunc [OF i] assms(1) i show ?thesis
    by (simp add: channel_text_def channel_value_def)
qed

lemma pixel_text_printable:
  assumes "getPixel f x y = Some p" and "printable p"
  shows "pixel_text f x y = Some (pixel_line p)"
  using assms by (simp add: pixel_text_def pixel_line_def channel_text_printable)

lemma sint_small:
  assumes "unat (x :: 32 word) < 2 ^ 31"
  shows "sint x = int (unat x)"
proof -
  have "int (unat x) < int (2 ^ 31)"
    using assms by (simp only: of_nat_less_iff)
  then have "uint x < 2 ^ 31"
    by (simp only: uint_nat of_nat_power of_nat_numeral)
  moreover have "- (2 ^ 31) \<le> uint x"
    by (rule order_trans [of _ 0]) simp_all
  ultimately have "signed_take_bit 31 (uint x) = uint x"
    by (simp only: signed_take_bit_int_eq_self_iff)
  moreover have "sint x = signed_take_bit 31 (uint x)"
    by (simp add: sint_uint)
  ultimately show ?thesis
    by (simp only: uint_nat)
qed

lemma getPixel_wf:
  assumes "wf_frame f" and "x < WIDTH f" and "y < HEIGHT f"
  shows "getPixel f x y = Some (buffer f ! (unat x + unat y * unat (WIDTH f)))"
    and "buffer f ! (unat x + unat y * unat (WIDTH f)) \<in> set (buffer f)"
  using pixel_index_wf [OF assms] by (simp_all add: getPixel_def)

lemma write_cols_text:
  "wf_frame f \<Longrightarrow> unat (WIDTH f) < 2 ^ 31 \<Longrightarrow> y < HEIGHT f \<Longrightarrow>
   \<forall>p \<in> set (buffer f). printable p \<Longrightarrow>
   write_cols f y x out =
     Some (out @ concat (map (\<lambda>i. pixel_line (buffer f ! (i + unat y * unat (WIDTH f))))
       [unat x..<unat (WIDTH f)]))"
proof (induction f y x out rule: write_cols.induct)
  case (1 f y x out)
  show ?case
  proof (cases "x < WIDTH f")
    case False
    then have "unat (WIDTH f) \<le> unat x"
      by (simp add: word_less_nat_alt)
    with False show ?thesis
      by (subst write_cols.simps) simp
  next
    case True
    let ?p = "buffer f ! (unat x + unat y * unat (WIDTH f))"
    have lt: "unat x < unat (WIDTH f)"
      using True by (simp add: word_less_nat_alt)
    have suc: "unat (x + 1) = Suc (unat x)"
      using True by (rule word_suc)
    have "printable ?p"
      using getPixel_wf(2) [OF "1.prems"(1) True "1.prems"(3)] "1.prems"(4) by simp
    with getPixel_wf(1) [OF "1.prems"(1) True "1.prems"(3)]
    have pt: "pixel_text f x y = Some (pixel_line ?p)"
      by (rule pixel_text_printable)
    have "unat x < 2 ^ 31"
      using lt "1.prems"(2) by simp
    then have sx: "sint x = int (unat x)"
      by (rule sint_small)
    have "unat x < 2 ^ 31 - 1"
      using lt "1.prems"(2) by simp
    then have "int (unat x) < int (2 ^ 31 - 1)"
      by (simp only: of_nat_less_iff)
    then have "int (unat x) \<noteq> 2 ^ 31 - 1"
      by simp
    then have ns: "sint x \<noteq> 2 ^ 31 - 1"
      unfolding sx .
    have "write_cols f y (x + 1) (out @ pixel_line ?p) =
        Some ((out @ pixel_line ?p) @ concat (map (\<lambda>i. pixel_line (buffer f ! (i + unat y * unat (WIDTH f))))
          [unat (x + 1)..<unat (WIDTH f)]))"
      using "1.IH" [OF True pt ns "1.prems"] .
    with True pt ns lt show ?thesis
      by (subst write_cols.simps) (simp add: upt_conv_Cons suc)
  qed
qed

lemma write_rows_negative: "sint y < 0 \<Longrightarrow> write_rows f y out = Some out"
  by (subst write_rows.simps) simp

lemma write_rows_text:
  "wf_frame f \<Longrightarrow> unat (WIDTH f) < 2 ^ 31 \<Longrightarrow> \<forall>p \<in> set (buffer f). printable p \<Longrightarrow>
   unat y < 2 ^ 31 \<Longrightarrow> y < HEIGHT f \<Longrightarrow>
   write_rows f y out = Some (out @ concat (map (image_row f) (rev [0..<Suc (unat y)])))"
proof (induction f y out rule: write_rows.induct)
  case (1 f y out)
  have pos: "0 \<le> sint y"
    using sint_small [OF "1.prems"(4)] by simp
  have cols: "write_cols f y 0 out = Some (out @ image_row f (unat y))"
    using write_cols_text [OF "1.prems"(1,2,5,3), of 0 out] by (simp add: image_row_def)
  show ?case
  proof (cases "y = 0")
    case True
    then have "sint (y - 1) < 0"
      by simp
    from write_rows_negative [OF this] pos cols True show ?thesis
      by (subst write_rows.simps) simp
  next
    case False
    then have nz: "unat y \<noteq> 0"
      by (simp add: unat_eq_0)
    then have u: "unat (y - 1) = unat y - 1"
      by (simp add: unat_minus_one False)
    then have small: "unat (y - 1) < 2 ^ 31"
      using "1.prems"(4) by simp
    have "unat (y - 1) < unat (HEIGHT f)"
      using u "1.prems"(5) nz by (simp add: word_less_nat_alt)
    then have lt: "y - 1 < HEIGHT f"
      by (simp add: word_less_nat_alt)
    have "write_rows f (y - 1) (out @ image_row f (unat y)) =
        Some ((out @ image_row f (unat y)) @ concat (map (image_row f) (rev [0..<Suc (unat (y - 1))])))"
      using "1.IH" [OF pos cols "1.prems"(1,2,3) small lt] .
    with pos cols u nz show ?thesis
      by (subst write_rows.simps) simp
  qed
qed

section \<open>Rounding\<close>

lemma bit_length_upper: "n < 2 ^ bit_length n"
proof (induction n rule: bit_length.induct)
  case (1 n)
  show ?case
  proof (cases "n = 0")
    case True
    then show ?thesis by (subst bit_length.simps) simp
  next
    case False
    with 1 have "n div 2 < 2 ^ bit_length (n div 2)" by simp
    then have "n < 2 * 2 ^ bit_length (n div 2)" by linarith
    with False show ?thesis by (subst bit_length.simps) simp
  qed
qed

lemma bit_length_lower: "0 < n \<Longrightarrow> 2 ^ (bit_length n - 1) \<le> n"
proof (induction n rule: bit_length.induct)
  case (1 n)
  show ?case
  proof (cases "n div 2 = 0")
    case True
    with "1.prems" have "n = 1" by (simp add: div_eq_0_iff) 
    then show ?thesis by (subst bit_length.simps) (simp add: bit_length.simps)
  next
    case False
    with 1 have "2 ^ (bit_length (n div 2) - 1) \<le> n div 2" by simp
    moreover have "0 < bit_length (n div 2)"
      using False by (subst bit_length.simps) simp
    ultimately have "2 ^ bit_length (n div 2) \<le> 2 * (n div 2)"
      by (cases "bit_length (n div 2)") simp_all
    then have "2 ^ bit_length (n div 2) \<le> n" by linarith
    with "1.prems" show ?thesis by (subst bit_length.simps) simp
  qed
qed

lemma bit_length_0 [simp]: "bit_length 0 = 0"
  by (subst bit_length.simps) simp

lemma round_even_0: "0 < d \<Longrightarrow> round_even p 0 d = 0"
  by (simp add: round_even_def)

lemma round_even_representable:
  assumes "0 < d"
  shows "representable (round_even 24 n d)"
proof -
  define j where "j = bit_length (n div d) - 24"
  define q where "q = n div (d * 2 ^ j)"
  have "n div d < 2 ^ bit_length (n div d)"
    by (rule bit_length_upper)
  also have "\<dots> \<le> 2 ^ (24 + j)"
    unfolding j_def by (intro power_increasing) simp_all
  finally have "n div d < 2 ^ 24 * 2 ^ j"
    by (simp add: power_add)
  then have "(n div d) div 2 ^ j < 2 ^ 24"
    by (simp add: less_mult_imp_div_less)
  then have q: "q < 2 ^ 24"
    by (simp add: q_def div_mult2_eq)
  have "round_even 24 n d = q * 2 ^ j \<or> round_even 24 n d = (q + 1) * 2 ^ j"
    by (simp add: round_even_def Let_def j_def [symmetric] q_def [symmetric])
  with q show ?thesis
    unfolding representable_def by (metis Suc_eq_plus1 Suc_leI less_imp_le)
qed

lemma representable_dvd:
  assumes "representable k"
  shows "2 ^ (bit_length k - 24) dvd k"
proof (cases "k = 0")
  case True
  then show ?thesis by simp
next
  case False
  from assms obtain m j where k: "k = m * 2 ^ j" and m: "m \<le> 2 ^ 24"
    by (auto simp: representable_def)
  have "2 ^ (bit_length k - 1) \<le> k"
    using False bit_length_lower [of k] by simp
  also have "k \<le> 2 ^ 24 * 2 ^ j"
    using k m by simp
  finally have "(2::nat) ^ (bit_length k - 1) \<le> 2 ^ (24 + j)"
    by (simp add: power_add)
  then have le: "bit_length k - 1 \<le> 24 + j"
    by simp
  show ?thesis
  proof (cases "bit_length k - 24 \<le> j")
    case True
    then have "(2::nat) ^ (bit_length k - 24) dvd 2 ^ j"
      by (rule le_imp_power_dvd)
    then show ?thesis
      unfolding k by (rule dvd_mult)
  next
    case False
    with le have bl: "bit_length k = 25 + j"
      by simp
    then have "2 ^ (24 + j) \<le> k"
      using bit_length_lower [of k] \<open>k \<noteq> 0\<close> by simp
    with \<open>k \<le> 2 ^ 24 * 2 ^ j\<close> have "k = 2 ^ (24 + j)"
      by (simp add: power_add)
    moreover have "bit_length k - 24 \<le> 24 + j"
      using bl by simp
    ultimately show ?thesis
      by (simp add: le_imp_power_dvd)
  qed
qed

lemma round_even_exact:
  assumes "representable k" and "0 < d"
  shows "round_even 24 (k * d) d = k"
proof -
  define j where "j = bit_length k - 24"
  have dvd: "2 ^ j dvd k"
    unfolding j_def using assms(1) by (rule representable_dvd)
  then obtain q where q: "k = 2 ^ j * q" ..
  have 1: "k * d div (d * 2 ^ j) = q"
    using assms(2) by (simp add: q)
  have 2: "k * d mod (d * 2 ^ j) = 0"
    by (simp add: q)
  show ?thesis
    using assms(2) by (simp add: round_even_def Let_def j_def [symmetric] 1 2) (simp add: q)
qed

lemma f32_round_is_f32: "0 < d \<Longrightarrow> is_f32 (f32_round s n d)"
  by (simp add: f32_round_def Let_def round_even_representable)

lemma f32_round_exact: "representable k \<Longrightarrow> k < 2 ^ 277 \<Longrightarrow> 0 < d \<Longrightarrow> f32_round s (k * d) d = Fin s k"
  by (simp add: f32_round_def Let_def round_even_exact)

lemma f32_round_0: "0 < d \<Longrightarrow> f32_round s 0 d = Fin s 0"
  by (simp add: f32_round_def Let_def round_even_0)

lemma fadd_NaN [simp]: "fadd x NaN = NaN"
  by (cases x) simp_all

lemma fsub_NaN [simp]: "fsub x NaN = NaN" "fsub NaN y = NaN"
  by (simp_all add: fsub_def)

lemma fmul_NaN [simp]: "fmul x NaN = NaN"
  by (cases x) simp_all

lemma fdiv_NaN [simp]: "fdiv x NaN = NaN"
  by (cases x) simp_all

lemma flt_NaN [simp]: "flt x NaN = False"
  by (cases x) simp_all

lemma fle_NaN [simp]: "fle x NaN = False"
  by (cases x) simp_all

lemma not_fle_iff: "x \<noteq> NaN \<Longrightarrow> y \<noteq> NaN \<Longrightarrow> \<not> fle x y \<longleftrightarrow> flt y x"
  by (cases x; cases y) auto

lemma not_flt_iff: "x \<noteq> NaN \<Longrightarrow> y \<noteq> NaN \<Longrightarrow> \<not> flt x y \<longleftrightarrow> fle y x"
  by (cases x; cases y) auto

lemma is_f32_fadd: "is_f32 (fadd x y)"
proof (cases x; cases y)
  fix s k t l
  assume "x = Fin s k" "y = Fin t l"
  then show ?thesis
    by (simp add: Let_def f32_round_is_f32 representable_def)
qed simp_all

lemma is_f32_fsub: "is_f32 (fsub x y)"
  by (simp add: fsub_def is_f32_fadd)

lemma is_finite_fneg [simp]: "is_finite (fneg x) = is_finite x"
  by (cases x) simp_all

lemma is_zero_fneg [simp]: "is_zero (fneg x) = is_zero x"
  by (cases x) simp_all

lemma is_zero_finite: "is_zero x \<Longrightarrow> is_finite x"
  by (cases x) simp_all

lemma fsub_self: "is_finite x \<Longrightarrow> fsub x x = Fin False 0"
  by (cases x) (simp_all add: fsub_def sval_def)

lemma fmul_zero_left: "is_zero x \<Longrightarrow> is_finite y \<Longrightarrow> is_zero (fmul x y)"
  by (cases x; cases y) (simp_all add: f32_round_0)

lemma fmul_zero_right: "is_finite x \<Longrightarrow> is_zero y \<Longrightarrow> is_zero (fmul x y)"
  by (cases x; cases y) (simp_all add: f32_round_0)

lemma fadd_zero: "is_zero x \<Longrightarrow> is_zero y \<Longrightarrow> is_zero (fadd x y)"
  by (cases x; cases y) (simp_all add: sval_def)

lemma fsub_zero: "is_zero x \<Longrightarrow> is_zero y \<Longrightarrow> is_zero (fsub x y)"
  by (simp add: fsub_def fadd_zero)

lemma fmul_one_left: "is_f32 y \<Longrightarrow> fmul f32_one y = y"
proof (cases y)
  case (Fin t l)
  assume "is_f32 y"
  with Fin have "representable l" "l < 2 ^ 277"
    by simp_all
  from f32_round_exact [OF this, of "2 ^ 149" t] Fin show ?thesis
    by (simp add: f32_one_def mult.commute)
qed (simp_all add: f32_one_def)

lemma f32_round_unit:
  assumes "representable l" and "l < 2 ^ 277"
  shows "f32_round u l (Suc 0) = Fin u l"
  using f32_round_exact [OF assms, of "Suc 0" u] by simp

section \<open>Evaluation on numerals\<close>

lemma bit_length_numeral:
  "bit_length 1 = 1"
  "bit_length (Suc 0) = 1"
  "bit_length (numeral Num.One) = 1"
  "bit_length (numeral (Num.Bit0 n)) = 1 + bit_length (numeral n)"
  "bit_length (numeral (Num.Bit1 n)) = 1 + bit_length (numeral n)"
  by (subst bit_length.simps, simp add: numeral_Bit0_div_2 numeral_Bit1_div_2 bit_length.simps)+

lemma bit_length_int_numeral:
  "bit_length_int 0 = 0"
  "bit_length_int 1 = 1"
  "bit_length_int (Suc 0) = 1"
  "bit_length_int (numeral Num.One) = 1"
  "bit_length_int (numeral (Num.Bit0 n)) = 1 + bit_length_int (numeral n)"
  "bit_length_int (numeral (Num.Bit1 n)) = 1 + bit_length_int (numeral n)"
  by (simp_all add: bit_length_int_def bit_length_numeral)

lemma bit_length_eval:
  "bit_length (numeral n) = nat (bit_length_int (numeral n))"
  "bit_length (Suc 0) = 1"
  by (simp_all add: bit_length_int_def bit_length_numeral)

lemma round_even_quotient:
  assumes "0 < d"
  shows "round_even p n d =
    (let m = n div d;
         j = bit_length m - p;
         q = drop_bit j m;
         r = n - q * (d * 2 ^ j)
     in (if 2 * r < d * 2 ^ j then q
         else if d * 2 ^ j < 2 * r then q + 1
         else if even q then q else q + 1) * 2 ^ j)"
proof -
  define j where "j = bit_length (n div d) - p"
  have q: "drop_bit j (n div d) = n div (d * 2 ^ j)"
    by (simp add: drop_bit_eq_div div_mult2_eq)
  have r: "n - n div (d * 2 ^ j) * (d * 2 ^ j) = n mod (d * 2 ^ j)"
    by (rule minus_div_mult_eq_mod)
  show ?thesis
    by (simp only: round_even_def Let_def j_def [symmetric] q r)
qed

lemma f32_round_eval:
  "0 < d \<Longrightarrow> f32_round s n d =
    (let m = n div d;
         j = bit_length m - 24;
         q = drop_bit j m;
         r = n - q * (d * 2 ^ j);
         k = (if 2 * r < d * 2 ^ j then q
              else if d * 2 ^ j < 2 * r then q + 1
              else if even q then q else q + 1) * 2 ^ j
     in if k < 2 ^ 277 then Fin s k else Inf s)"
  by (simp add: f32_round_def round_even_quotient Let_def)

lemma round_dyadic_eval:
  "round_dyadic s n e =
    (let m = drop_bit e n;
         j = bit_length m - 24;
         q = drop_bit j m;
         r = n - q * 2 ^ (e + j);
         k = (if 2 * r < 2 ^ (e + j) then q
              else if 2 ^ (e + j) < 2 * r then q + 1
              else if even q then q else q + 1) * 2 ^ j
     in if k < 2 ^ 277 then Fin s k else Inf s)"
  by (simp add: round_dyadic_def f32_round_eval Let_def drop_bit_eq_div power_add)

lemma fmul_Fin_dyadic: "fmul (Fin s k) (Fin t l) = round_dyadic (s \<noteq> t) (k * l) 149"
  by (simp add: round_dyadic_def)

lemma fadd_Fin_dyadic:
  "fadd (Fin s k) (Fin t l) =
     (let v = sval s k + sval t l
      in if v = 0 then Fin (s \<and> t) 0 else round_dyadic (v < 0) (nat \<bar>v\<bar>) 0)"
  by (simp add: round_dyadic_def Let_def)

lemma fdiv_Fin_eval:
  "fdiv (Fin s k) (Fin t l) =
     (if l = 0 then (if k = 0 then NaN else Inf (s \<noteq> t))
      else f32_round (s \<noteq> t) (k * 2 ^ 149) l)"
  by simp

lemmas f32_fast = bit_length_eval bit_length_int_numeral fmul_Fin_dyadic fadd_Fin_dyadic
  round_dyadic_eval f32_round_eval round_even_quotient Let_def fsub_def sval_def f32_zero_def
  f32_one_def f32_of_nat_def

lemmas f32_literals = f32_literal_def f32_of_double_literal_def

declare fmul.simps(7) [simp del] fadd.simps(7) [simp del]

lemma eps1_value: "eps1 = Fin False (14073749 * 2 ^ 102)"
  by (simp add: eps1_def f32_literals f32_fast cong: let_weak_cong)

lemma eps2_value: "eps2 = Fin False (14411519 * 2 ^ 92)"
  by (simp add: eps2_def f32_literals f32_fast cong: let_weak_cong)

lemma tenth_value:
  "f32_literal 1 10 = Fin False (13421773 * 2 ^ 122)"
  "f32_literal (Suc 0) 10 = Fin False (13421773 * 2 ^ 122)"
  by (simp_all add: f32_literals f32_fast cong: let_weak_cong)

lemma half_value:
  "f32_literal 1 2 = Fin False (2 ^ 148)"
  "f32_literal (Suc 0) 2 = Fin False (2 ^ 148)"
  by (simp_all add: f32_literals f32_fast cong: let_weak_cong)

lemma fle_zero_eps1: "is_zero a \<Longrightarrow> fle a eps1"
  by (cases a) (simp_all add: eps1_value sval_def)

lemma not_covered_small_det: "fle (det tri) eps1 \<Longrightarrow> \<not> covered tri x y"
  by (simp add: covered_def)

lemma is_f32_fneg [simp]: "is_f32 (fneg x) = is_f32 x"
  by (cases x) simp_all

lemma is_f32_zero: "is_zero x \<Longrightarrow> is_f32 x"
  by (cases x) (simp_all add: representable_def)

lemma is_zero_f32_zero [simp]: "is_zero f32_zero"
  by (simp add: f32_zero_def)

lemma is_finite_f32_one [simp]: "is_finite f32_one"
  by (simp add: f32_one_def)

section \<open>Rounding error, signs and parallel edges\<close>

text \<open>
  A sum that is finite differs from the exact sum of its operands by at most \<open>2 ^ -24\<close>
  of that sum: round to nearest even on a 24-bit significand.
\<close>

lemma round_even_unit_error:
  "2 ^ 24 * \<bar>int (round_even 24 n (Suc 0)) - int n\<bar> \<le> int n"
proof -
  define j where "j = bit_length n - 24"
  define q where "q = n div 2 ^ j"
  define r where "r = n mod 2 ^ j"
  define R where "R = round_even 24 n (Suc 0)"
  have n: "n = q * 2 ^ j + r" and r: "r < 2 ^ j"
    using div_mult_mod_eq [of n "2 ^ j"] by (simp_all add: q_def r_def)
  have R: "R = (if 2 * r < 2 ^ j then q else if 2 ^ j < 2 * r then q + 1
      else if even q then q else q + 1) * 2 ^ j"
    by (simp add: R_def round_even_def Let_def j_def [symmetric] q_def [symmetric] r_def [symmetric])
  have "int r < int (2 ^ j)"
    using r by (simp only: of_nat_less_iff)
  then have ir: "int r < 2 ^ j"
    by simp
  have half: "2 * \<bar>int R - int n\<bar> \<le> 2 ^ j"
  proof -
    consider "R = q * 2 ^ j" "2 * r \<le> 2 ^ j" | "R = (q + 1) * 2 ^ j" "2 ^ j \<le> 2 * r"
      using R by (auto split: if_splits)
    then show ?thesis
    proof cases
      case 1
      have "int R - int n = - int r"
        by (simp add: 1(1) n)
      moreover have "int (2 * r) \<le> int (2 ^ j)"
        using 1(2) by (simp only: of_nat_le_iff)
      then have "2 * int r \<le> 2 ^ j"
        by simp
      ultimately show ?thesis
        by simp
    next
      case 2
      have "int R = int q * 2 ^ j + 2 ^ j" "int n = int q * 2 ^ j + int r"
        by (simp_all add: 2(1) n algebra_simps)
      then have "int R - int n = 2 ^ j - int r"
        by simp
      moreover have "int (2 ^ j) \<le> int (2 * r)"
        using 2(2) by (simp only: of_nat_le_iff)
      then have "2 ^ j \<le> 2 * int r"
        by simp
      ultimately show ?thesis
        using ir by simp
    qed
  qed
  show ?thesis
  proof (cases "j = 0")
    case True
    with r have "r = 0" by simp
    with R True n have "R = n" by simp
    then show ?thesis
      by (simp add: R_def [symmetric])
  next
    case False
    then have bl: "bit_length n - 1 = 23 + j"
      unfolding j_def by simp
    have pos: "0 < n"
      using False unfolding j_def by (cases "n = 0") simp_all
    from bit_length_lower [OF pos] bl have "2 ^ 23 * 2 ^ j \<le> n"
      by (simp add: power_add)
    then have "int (2 ^ 23 * 2 ^ j) \<le> int n"
      by (simp only: of_nat_le_iff)
    then have "2 ^ 23 * 2 ^ j \<le> int n"
      by simp
    moreover have "2 ^ 24 * \<bar>int R - int n\<bar> = 2 ^ 23 * (2 * \<bar>int R - int n\<bar>)"
      by simp
    moreover have "2 ^ 23 * (2 * \<bar>int R - int n\<bar>) \<le> 2 ^ 23 * 2 ^ j"
      using half by (intro mult_left_mono) simp_all
    ultimately show ?thesis
      unfolding R_def [symmetric] by linarith
  qed
qed

lemma valof_Fin: "valof (Fin s k) = real_of_int (sval s k) / 2 ^ 149"
  by (simp add: valof_def sval_def)

lemma scaled_error:
  fixes a b u :: real
  assumes "0 < u" and "2 ^ 24 * \<bar>a - b\<bar> \<le> \<bar>b\<bar>"
  shows "\<bar>a / u - b / u\<bar> \<le> \<bar>b / u\<bar> / 2 ^ 24"
proof -
  have "\<bar>a - b\<bar> \<le> \<bar>b\<bar> / 2 ^ 24"
    using assms(2) by (simp add: field_simps)
  then have "\<bar>a - b\<bar> / u \<le> \<bar>b\<bar> / 2 ^ 24 / u"
    using assms(1) by (intro divide_right_mono) simp_all
  moreover have "\<bar>a / u - b / u\<bar> = \<bar>a - b\<bar> / u"
    using assms(1) by (simp add: diff_divide_distrib [symmetric])
  moreover have "\<bar>u\<bar> = u"
    using assms(1) by simp
  then have "\<bar>b / u\<bar> / 2 ^ 24 = \<bar>b\<bar> / 2 ^ 24 / u"
    by simp
  ultimately show ?thesis
    by (simp only:)
qed

lemma fadd_error:
  assumes "is_finite (fadd x y)"
  shows "\<bar>valof (fadd x y) - (valof x + valof y)\<bar> \<le> \<bar>valof x + valof y\<bar> / 2 ^ 24"
proof (cases x; cases y)
  fix s k t l
  assume xy: "x = Fin s k" "y = Fin t l"
  define v where "v = sval s k + sval t l"
  define u :: real where "u = 2 ^ 149"
  have u: "0 < u"
    by (simp add: u_def)
  have val: "valof (Fin a b) = real_of_int (sval a b) / u" for a b
    unfolding u_def by (rule valof_Fin)
  have sum: "valof x + valof y = real_of_int v / u"
    by (simp only: xy val v_def add_divide_distrib of_int_add)
  show ?thesis
  proof (cases "v = 0")
    case True
    then have "fadd x y = Fin (s \<and> t) 0"
      by (simp add: xy fadd.simps(7) v_def [symmetric])
    then have "valof (fadd x y) = 0"
      by (simp add: valof_def)
    with True sum show ?thesis
      by simp
  next
    case False
    define R where "R = round_even 24 (nat \<bar>v\<bar>) (Suc 0)"
    have res: "fadd x y = Fin (v < 0) R"
      using assms False
      by (simp add: xy fadd.simps(7) v_def [symmetric] f32_round_def Let_def R_def [symmetric]
          split: if_splits)
    have "2 ^ 24 * \<bar>int R - int (nat \<bar>v\<bar>)\<bar> \<le> int (nat \<bar>v\<bar>)"
      unfolding R_def by (rule round_even_unit_error)
    then have e: "2 ^ 24 * \<bar>int R - \<bar>v\<bar>\<bar> \<le> \<bar>v\<bar>"
      by simp
    have "\<bar>sval (v < 0) R - v\<bar> = \<bar>int R - \<bar>v\<bar>\<bar>"
      by (cases "v < 0") (simp_all add: sval_def)
    with e have "2 ^ 24 * \<bar>sval (v < 0) R - v\<bar> \<le> \<bar>v\<bar>"
      by simp
    then have "real_of_int (2 ^ 24 * \<bar>sval (v < 0) R - v\<bar>) \<le> real_of_int \<bar>v\<bar>"
      by (simp only: of_int_le_iff)
    then have "2 ^ 24 * \<bar>real_of_int (sval (v < 0) R) - real_of_int v\<bar> \<le> \<bar>real_of_int v\<bar>"
      by simp
    from scaled_error [OF u this]
    have "\<bar>real_of_int (sval (v < 0) R) / u - real_of_int v / u\<bar>
        \<le> \<bar>real_of_int v / u\<bar> / 2 ^ 24" .
    then show ?thesis
      by (simp only: res sum val)
  qed
qed (use assms in \<open>simp_all split: if_splits\<close>)

lemma is_finite_fadd: "is_finite (fadd x y) \<Longrightarrow> is_finite x \<and> is_finite y"
  by (cases x; cases y) (simp_all add: fadd.simps(7) split: if_splits)

lemma valof_fneg [simp]: "valof (fneg x) = - valof x"
  by (cases x) (simp_all add: valof_def)

lemma valof_one [simp]: "valof f32_one = 1"
  by (simp add: valof_def f32_one_def)

text \<open>Negation commutes with rounding, and adding a zero changes no value but a zero's sign.\<close>

lemma fneg_f32_round: "fneg (f32_round s n d) = f32_round (\<not> s) n d"
  by (simp add: f32_round_def Let_def)

lemma fmul_fneg_right: "fmul x (fneg y) = fneg (fmul x y)"
  by (cases x; cases y) (auto simp: fmul.simps(7) fneg_f32_round)

lemma fadd_fneg_self: "is_finite m \<Longrightarrow> is_zero (fadd (fneg m) m)"
  by (cases m) (simp_all add: fadd.simps(7) sval_def)

lemma fadd_zero_left_cases:
  assumes "is_zero z" and "is_f32 y" and "is_finite y"
  shows "is_zero y \<and> is_zero (fadd z y) \<or> fadd z y = y"
proof (cases z; cases y)
  fix s k t l
  assume zy: "z = Fin s k" "y = Fin t l"
  with assms have k: "k = 0" and l: "representable l" "l < 2 ^ 277"
    by simp_all
  show ?thesis
  proof (cases "l = 0")
    case True
    with zy k show ?thesis
      by (simp add: fadd.simps(7) sval_def)
  next
    case False
    with zy k l show ?thesis
      by (simp add: fadd.simps(7) sval_def Let_def f32_round_unit)
  qed
qed (use assms in simp_all)

lemma fadd_zero_right_cases:
  assumes "is_f32 y" and "is_finite y" and "is_zero z"
  shows "is_zero y \<and> is_zero (fadd y z) \<or> fadd y z = y"
proof (cases z; cases y)
  fix s k t l
  assume zy: "z = Fin s k" "y = Fin t l"
  with assms have k: "k = 0" and l: "representable l" "l < 2 ^ 277"
    by simp_all
  show ?thesis
  proof (cases "l = 0")
    case True
    with zy k show ?thesis
      by (simp add: fadd.simps(7) sval_def)
  next
    case False
    with zy k l show ?thesis
      by (simp add: fadd.simps(7) sval_def Let_def f32_round_unit)
  qed
qed (use assms in simp_all)

text \<open>
  Two products of finite floats whose exact values agree round to the same float. Hence the
  determinant of two edge vectors with exactly parallel projections is a zero, provided the
  product does not overflow.
\<close>

lemma valof_zero: "is_zero x \<Longrightarrow> valof x = 0"
  by (cases x) (simp_all add: valof_def)

lemma valof_Fin_pos: "0 < valof (Fin s k) \<longleftrightarrow> \<not> s \<and> k \<noteq> 0"
  by (simp add: valof_def zero_less_divide_iff)

lemma valof_Fin_neg: "valof (Fin s k) < 0 \<longleftrightarrow> s \<and> k \<noteq> 0"
  by (simp add: valof_def divide_less_0_iff)

lemma valof_Fin_zero: "valof (Fin s k) = 0 \<longleftrightarrow> k = 0"
  by (simp add: valof_def)

lemma valof_product_sign:
  assumes "k \<noteq> 0" and "l \<noteq> 0"
  shows "0 < valof (Fin s k) * valof (Fin t l) \<longleftrightarrow> s = t"
  using assms by (auto simp: zero_less_mult_iff valof_Fin_pos valof_Fin_neg)

lemma valof_product_abs:
  "\<bar>valof (Fin s k) * valof (Fin t l)\<bar> = real (k * l) / (2 ^ 149 * 2 ^ 149)"
  by (simp add: valof_def abs_mult)

lemma valof_product_eq:
  assumes "valof (Fin s k) * valof (Fin t l) = valof (Fin s' k') * valof (Fin t' l')"
  shows "k * l = k' * l'" and "k * l \<noteq> 0 \<Longrightarrow> (s \<noteq> t) = (s' \<noteq> t')"
proof -
  have "\<bar>valof (Fin s k) * valof (Fin t l)\<bar> = \<bar>valof (Fin s' k') * valof (Fin t' l')\<bar>"
    using assms by simp
  then have "real (k * l) / (2 ^ 149 * 2 ^ 149) = real (k' * l') / (2 ^ 149 * 2 ^ 149)"
    by (simp only: valof_product_abs)
  then have "real (k * l) = real (k' * l')"
    by simp
  then show e: "k * l = k' * l'"
    by (simp only: of_nat_eq_iff)
  assume p: "k * l \<noteq> 0"
  then have "k' * l' \<noteq> 0"
    using e by simp
  with p have nz: "k \<noteq> 0" "l \<noteq> 0" "k' \<noteq> 0" "l' \<noteq> 0"
    by simp_all
  have "(s = t) = (s' = t')"
    using valof_product_sign [OF nz(1,2), of s t] valof_product_sign [OF nz(3,4), of s' t'] assms
    by simp
  then show "(s \<noteq> t) = (s' \<noteq> t')"
    by simp
qed

lemma fmul_eq_of_valof:
  assumes "is_finite a" and "is_finite b" and "is_finite c" and "is_finite d"
    and "valof a * valof b = valof c * valof d"
    and "\<not> is_zero a" and "\<not> is_zero b"
  shows "fmul a b = fmul c d"
proof -
  obtain s k t l s' k' t' l' where v: "a = Fin s k" "b = Fin t l" "c = Fin s' k'" "d = Fin t' l'"
    using assms(1-4) by (cases a; cases b; cases c; cases d) simp_all
  have nz: "k * l \<noteq> 0"
    using assms(6,7) by (simp add: v)
  from valof_product_eq [OF assms(5) [unfolded v]] nz show ?thesis
    by (simp add: v fmul.simps(7))
qed

lemma det_zero_parallel:
  assumes fu: "vfinite (edge_u tri)" and fv: "vfinite (edge_v tri)"
    and area: "valof (at0 (edge_u tri)) * valof (at1 (edge_v tri))
             = valof (at1 (edge_u tri)) * valof (at0 (edge_v tri))"
    and prod: "is_finite (fmul (at0 (edge_u tri)) (at1 (edge_v tri)))"
  shows "is_zero (det tri)"
proof -
  let ?u = "edge_u tri" and ?v = "edge_v tri"
  have f: "is_finite (at0 ?u)" "is_finite (at1 ?u)" "is_finite (at2 ?u)"
    "is_finite (at0 ?v)" "is_finite (at1 ?v)" "is_finite (at2 ?v)"
    using fu fv by (simp_all add: vfinite_def)
  have g: "is_f32 (at0 ?v)" "is_f32 (at1 ?v)"
    by (simp_all add: edge_v_def vsub_def is_f32_fsub)
  define z where "z = fmul f32_zero (at2 ?v)"
  define n0 where "n0 = fadd z (fneg (at1 ?v))"
  define n1 where "n1 = fadd (at0 ?v) (fneg z)"
  define n2 where "n2 = fsub (fmul f32_zero (at1 ?v)) (fmul f32_zero (at0 ?v))"
  have z: "is_zero z"
    unfolding z_def using f by (simp add: fmul_zero_left)
  have n: "plane_n tri = Array3 n0 n1 n2"
    by (simp add: plane_n_def cross_def ray_dir_def n0_def n1_def n2_def z_def fsub_def
        fmul_one_left g)
  have n2: "is_zero n2"
    unfolding n2_def using f by (simp add: fsub_zero fmul_zero_left)
  have c0: "is_zero (at1 ?v) \<and> is_zero n0 \<or> n0 = fneg (at1 ?v)"
    unfolding n0_def using fadd_zero_left_cases [OF z, of "fneg (at1 ?v)"] f g by simp
  have c1: "is_zero (at0 ?v) \<and> is_zero n1 \<or> n1 = at0 ?v"
    unfolding n1_def using fadd_zero_right_cases [of "at0 ?v" "fneg z"] z f g by simp
  have fn0: "is_finite n0"
    using c0 f by (auto simp: is_zero_finite)
  have fn1: "is_finite n1"
    using c1 f by (auto simp: is_zero_finite)
  have zv: "is_zero x \<longleftrightarrow> valof x = 0" if "is_finite x" for x
    using that by (cases x) (simp_all add: valof_Fin_zero)
  have pq: "is_zero (fadd (fmul (at0 ?u) n0) (fmul (at1 ?u) n1))"
  proof (cases "is_zero (at0 ?u) \<or> is_zero (at1 ?v)")
    case True
    then have "valof (at0 ?u) * valof (at1 ?v) = 0"
      using f by (auto simp: zv)
    then have "valof (at1 ?u) * valof (at0 ?v) = 0"
      using area by simp
    then have r: "is_zero (at1 ?u) \<or> is_zero (at0 ?v)"
      using f by (simp add: zv)
    have "is_zero (fmul (at0 ?u) n0)"
      using True c0 f fn0 by (auto simp: fmul_zero_left fmul_zero_right)
    moreover have "is_zero (fmul (at1 ?u) n1)"
      using r c1 f fn1 by (auto simp: fmul_zero_left fmul_zero_right)
    ultimately show ?thesis
      by (simp add: fadd_zero)
  next
    case False
    then have nz: "\<not> is_zero (at0 ?u)" "\<not> is_zero (at1 ?v)"
      by simp_all
    then have "valof (at0 ?u) * valof (at1 ?v) \<noteq> 0"
      using f by (simp add: zv)
    then have "valof (at1 ?u) * valof (at0 ?v) \<noteq> 0"
      using area by simp
    then have "\<not> is_zero (at0 ?v)"
      using f by (simp add: zv)
    with c0 c1 nz have n0: "n0 = fneg (at1 ?v)" and n1: "n1 = at0 ?v"
      by simp_all
    have "fmul (at0 ?u) (at1 ?v) = fmul (at1 ?u) (at0 ?v)"
      using f area nz by (intro fmul_eq_of_valof) simp_all
    with prod show ?thesis
      by (simp add: n0 n1 fmul_fneg_right fadd_fneg_self)
  qed
  have "is_zero (fmul (at2 ?u) n2)"
    using f n2 by (simp add: fmul_zero_right)
  with pq show ?thesis
    by (simp add: det_def n dot_def fadd_zero)
qed

lemma identical_vertices_zero_area:
  assumes "at1 (vertices tri) = at0 (vertices tri) \<and> vfinite (at0 (vertices tri))
         \<and> vfinite (edge_v tri)
       \<or> at2 (vertices tri) = at0 (vertices tri) \<and> vfinite (at0 (vertices tri))
         \<and> vfinite (edge_u tri)
       \<or> at1 (vertices tri) = at2 (vertices tri) \<and> vfinite (edge_u tri)
         \<and> is_finite (fmul (at0 (edge_u tri)) (at1 (edge_u tri)))"
  shows "vfinite (edge_u tri) \<and> vfinite (edge_v tri)
    \<and> valof (at0 (edge_u tri)) * valof (at1 (edge_v tri))
        = valof (at1 (edge_u tri)) * valof (at0 (edge_v tri))
    \<and> is_finite (fmul (at0 (edge_u tri)) (at1 (edge_v tri)))"
  using assms
proof (elim disjE conjE)
  assume eq: "at1 (vertices tri) = at0 (vertices tri)" and f: "vfinite (at0 (vertices tri))"
    and fv: "vfinite (edge_v tri)"
  have z: "is_zero (at0 (edge_u tri))" "is_zero (at1 (edge_u tri))" "is_zero (at2 (edge_u tri))"
    using f by (simp_all add: edge_u_def eq vsub_def vfinite_def fsub_self)
  with fv show ?thesis
    by (simp add: vfinite_def is_zero_finite valof_zero fmul_zero_left)
next
  assume eq: "at2 (vertices tri) = at0 (vertices tri)" and f: "vfinite (at0 (vertices tri))"
    and fu: "vfinite (edge_u tri)"
  have z: "is_zero (at0 (edge_v tri))" "is_zero (at1 (edge_v tri))" "is_zero (at2 (edge_v tri))"
    using f by (simp_all add: edge_v_def eq vsub_def vfinite_def fsub_self)
  with fu show ?thesis
    by (simp add: vfinite_def is_zero_finite valof_zero fmul_zero_right)
next
  assume eq: "at1 (vertices tri) = at2 (vertices tri)" and fu: "vfinite (edge_u tri)"
    and p: "is_finite (fmul (at0 (edge_u tri)) (at1 (edge_u tri)))"
  have "edge_v tri = edge_u tri"
    using eq by (simp add: edge_u_def edge_v_def)
  with fu p show ?thesis
    by simp
qed

section \<open>The values at the sample pixels\<close>

text \<open>
  The quantities of the loop body, evaluated step by step: at the pixel \<open>(83, 82)\<close> of the
  program's triangle, and at the pixel \<open>(0, 0)\<close> of the sample triangles.
\<close>

lemma colour_values:
  "f32_of_double_literal 84 100 = Fin False (14092861 * 2 ^ 125)"
  "f32_of_double_literal 32 100 = Fin False (5368709 * 2 ^ 125)"
  "f32_of_double_literal 0 1 = Fin False 0"
  "f32_of_double_literal 0 (Suc 0) = Fin False 0"
  by (simp_all add: f32_literals f32_fast cong: let_weak_cong)

lemma main_colors:
  "colors main_tri =
     Array3 (Array3 (Fin False (14092861 * 2 ^ 125)) (Fin False (14092861 * 2 ^ 125)) (Fin False 0))
            (Array3 (Fin False 0) (Fin False (14092861 * 2 ^ 125)) (Fin False (14092861 * 2 ^ 125)))
            (Array3 (Fin False (14092861 * 2 ^ 125)) (Fin False 0) (Fin False (14092861 * 2 ^ 125)))"
  by (simp add: main_tri_def colour_values)

lemma wide_colors: "colors wide_tri = colors main_tri"
  by (simp add: wide_tri_def)

lemma far_colors: "colors far_tri = colors main_tri"
  by (simp add: far_tri_def)

lemma nan_colors: "colors nan_tri = colors main_tri"
  by (simp add: nan_tri_def)

lemma main_edge_u:
  "edge_u main_tri = Array3 (Fin False (5 * 2 ^ 153)) (Fin False (45 * 2 ^ 153)) (Fin False 0)"
  by (simp add: edge_u_def main_tri_def vsub_def f32_fast cong: let_weak_cong)

lemma main_edge_v:
  "edge_v main_tri = Array3 (Fin False (25 * 2 ^ 153)) (Fin False (15 * 2 ^ 153)) (Fin False 0)"
  by (simp add: edge_v_def main_tri_def vsub_def f32_fast cong: let_weak_cong)

lemma main_plane_n:
  "plane_n main_tri = Array3 (Fin True (15 * 2 ^ 153)) (Fin False (25 * 2 ^ 153)) (Fin False 0)"
  by (simp add: plane_n_def main_edge_v ray_dir_def cross_def f32_fast cong: let_weak_cong)

lemma main_det: "det main_tri = Fin False (525 * 2 ^ 158)"
  by (simp add: det_def main_edge_u main_plane_n dot_def f32_fast cong: let_weak_cong)

lemma main_pix_s:
  "pix_s main_tri 83 82 =
     Array3 (Fin False (3 * 2 ^ 149)) (Fin False (2 ^ 150)) (Fin True (25 * 2 ^ 151))"
  by (simp add: pix_s_def pix_def main_tri_def vsub_def f32_fast cong: let_weak_cong)

lemma main_pix_r:
  "pix_r main_tri 83 82 =
     Array3 (Fin False (1125 * 2 ^ 155)) (Fin True (125 * 2 ^ 155)) (Fin False (125 * 2 ^ 153))"
  by (simp add: pix_r_def main_pix_s main_edge_u cross_def f32_fast cong: let_weak_cong)

lemma main_numerators:
  "dot (edge_v main_tri) (pix_r main_tri 83 82) = Fin False (13125 * 2 ^ 160)
   \<and> dot (pix_s main_tri 83 82) (plane_n main_tri) = Fin False (5 * 2 ^ 153)
   \<and> dot ray_dir (pix_r main_tri 83 82) = Fin False (125 * 2 ^ 153)"
  by (simp add: main_edge_v main_pix_r main_pix_s main_plane_n ray_dir_def dot_def f32_fast cong:
      let_weak_cong)

lemma main_ray_d: "ray_d main_tri 83 82 = Fin False (25 * 2 ^ 151)"
  by (simp add: ray_d_def main_numerators main_det f32_fast cong: let_weak_cong)

lemma main_beta: "beta main_tri 83 82 = Fin False (10226113 * 2 ^ 114)"
  by (simp add: beta_def main_numerators main_det f32_fast cong: let_weak_cong)

lemma main_gamma: "gamma main_tri 83 82 = Fin False (15978301 * 2 ^ 118)"
  by (simp add: gamma_def main_numerators main_det f32_fast cong: let_weak_cong)

lemma main_alpha: "alpha main_tri 83 82 = Fin False (520231 * 2 ^ 130)"
  by (simp add: alpha_def main_beta main_gamma f32_fast cong: let_weak_cong)

lemma main_covered: "covered main_tri 83 82"
  by (simp add: covered_def main_det main_alpha main_beta main_gamma main_ray_d eps1_value
      eps2_value tenth_value f32_fast cong: let_weak_cong)

lemma main_shade:
  "shade main_tri 83 82 =
     Array3 (Fin False (14088667 * 2 ^ 125)) (Fin False (13988003 * 2 ^ 125)) (Fin False (13958643 * 2 ^ 118))"
  by (simp add: shade_def main_alpha main_beta main_gamma main_colors vadd_def vscale_def
      f32_fast cong: let_weak_cong)

lemma wide_edge_u: "edge_u wide_tri = Array3 (Fin False 0) (Fin False (2 ^ 182)) (Fin False 0)"
  by (simp add: edge_u_def wide_tri_def half_value vsub_def f32_fast cong: let_weak_cong)

lemma wide_edge_v: "edge_v wide_tri = Array3 (Fin False (2 ^ 182)) (Fin False 0) (Fin False 0)"
  by (simp add: edge_v_def wide_tri_def half_value vsub_def f32_fast cong: let_weak_cong)

lemma wide_plane_n: "plane_n wide_tri = Array3 (Fin False 0) (Fin False (2 ^ 182)) (Fin False 0)"
  by (simp add: plane_n_def wide_edge_v ray_dir_def cross_def f32_fast cong: let_weak_cong)

lemma wide_det: "det wide_tri = Fin False (2 ^ 215)"
  by (simp add: det_def wide_edge_u wide_plane_n dot_def f32_fast cong: let_weak_cong)

lemma wide_pix_s:
  "pix_s wide_tri 0 0 = Array3 (Fin True (2 ^ 148)) (Fin True (2 ^ 148)) (Fin True (2 ^ 149))"
  by (simp add: pix_s_def pix_def wide_tri_def half_value vsub_def f32_fast cong: let_weak_cong)

lemma wide_pix_r:
  "pix_r wide_tri 0 0 = Array3 (Fin False (2 ^ 182)) (Fin False 0) (Fin True (2 ^ 181))"
  by (simp add: pix_r_def wide_pix_s wide_edge_u cross_def f32_fast cong: let_weak_cong)

lemma wide_numerators:
  "dot (edge_v wide_tri) (pix_r wide_tri 0 0) = Fin False (2 ^ 215)
   \<and> dot (pix_s wide_tri 0 0) (plane_n wide_tri) = Fin True (2 ^ 181)
   \<and> dot ray_dir (pix_r wide_tri 0 0) = Fin True (2 ^ 181)"
  by (simp add: wide_edge_v wide_pix_r wide_pix_s wide_plane_n ray_dir_def dot_def f32_fast cong:
      let_weak_cong)

lemma wide_ray_d: "ray_d wide_tri 0 0 = Fin False (2 ^ 149)"
  by (simp add: ray_d_def wide_numerators wide_det f32_fast cong: let_weak_cong)

lemma wide_beta: "beta wide_tri 0 0 = Fin True (2 ^ 115)"
  by (simp add: beta_def wide_numerators wide_det f32_fast cong: let_weak_cong)

lemma wide_gamma: "gamma wide_tri 0 0 = Fin True (2 ^ 115)"
  by (simp add: gamma_def wide_numerators wide_det f32_fast cong: let_weak_cong)

lemma wide_alpha: "alpha wide_tri 0 0 = Fin False (2 ^ 149)"
  by (simp add: alpha_def wide_beta wide_gamma f32_fast cong: let_weak_cong)

lemma wide_covered: "covered wide_tri 0 0"
  by (simp add: covered_def wide_det wide_alpha wide_beta wide_gamma wide_ray_d eps1_value
      eps2_value tenth_value f32_fast cong: let_weak_cong)

lemma wide_shade:
  "shade wide_tri 0 0 =
     Array3 (Fin False (14092861 * 2 ^ 125)) (Fin False (14092861 * 2 ^ 125)) (Fin True (14092861 * 2 ^ 92))"
  by (simp add: shade_def wide_alpha wide_beta wide_gamma wide_colors main_colors vadd_def
      vscale_def f32_fast cong: let_weak_cong)

lemma far_edge_u:
  "edge_u far_tri = Array3 (Fin False (2 ^ 213)) (Fin False (2 ^ 213)) (Fin False 0)"
  by (simp add: edge_u_def far_tri_def vsub_def f32_fast cong: let_weak_cong)

lemma far_edge_v:
  "edge_v far_tri = Array3 (Fin False (2 ^ 213)) (Fin False (2 ^ 213)) (Fin False 0)"
  by (simp add: edge_v_def far_tri_def vsub_def f32_fast cong: let_weak_cong)

lemma far_plane_n:
  "plane_n far_tri = Array3 (Fin True (2 ^ 213)) (Fin False (2 ^ 213)) (Fin False 0)"
  by (simp add: plane_n_def far_edge_v ray_dir_def cross_def f32_fast cong: let_weak_cong)

lemma far_det: "det far_tri = NaN"
  by (simp add: det_def far_edge_u far_plane_n dot_def f32_fast cong: let_weak_cong)

lemma far_pix_s: "pix_s far_tri 0 0 = Array3 (Fin False 0) (Fin False 0) (Fin False 0)"
  by (simp add: pix_s_def pix_def far_tri_def vsub_def f32_fast cong: let_weak_cong)

lemma far_pix_r: "pix_r far_tri 0 0 = Array3 (Fin False 0) (Fin False 0) (Fin False 0)"
  by (simp add: pix_r_def far_pix_s far_edge_u cross_def f32_fast cong: let_weak_cong)

lemma far_numerators:
  "dot (edge_v far_tri) (pix_r far_tri 0 0) = Fin False 0
   \<and> dot (pix_s far_tri 0 0) (plane_n far_tri) = Fin False 0
   \<and> dot ray_dir (pix_r far_tri 0 0) = Fin False 0"
  by (simp add: far_edge_v far_pix_r far_pix_s far_plane_n ray_dir_def dot_def f32_fast cong:
      let_weak_cong)

lemma far_ray_d: "ray_d far_tri 0 0 = NaN"
  by (simp add: ray_d_def far_numerators far_det f32_fast cong: let_weak_cong)

lemma far_beta: "beta far_tri 0 0 = NaN"
  by (simp add: beta_def far_numerators far_det f32_fast cong: let_weak_cong)

lemma far_gamma: "gamma far_tri 0 0 = NaN"
  by (simp add: gamma_def far_numerators far_det f32_fast cong: let_weak_cong)

lemma far_alpha: "alpha far_tri 0 0 = NaN"
  by (simp add: alpha_def far_beta far_gamma f32_fast cong: let_weak_cong)

lemma far_covered: "covered far_tri 0 0"
  by (simp add: covered_def far_det far_alpha far_beta far_gamma far_ray_d eps1_value eps2_value
      tenth_value f32_fast cong: let_weak_cong)

lemma far_shade: "shade far_tri 0 0 = Array3 NaN NaN NaN"
  by (simp add: shade_def far_alpha far_beta far_gamma far_colors main_colors vadd_def vscale_def
      f32_fast cong: let_weak_cong)

lemma point_edge_u: "edge_u point_tri = Array3 (Fin False 0) (Fin False 0) (Fin False 0)"
  by (simp add: edge_u_def point_tri_def vsub_def f32_fast cong: let_weak_cong)

lemma point_edge_v: "edge_v point_tri = Array3 (Fin False 0) (Fin False 0) (Fin False 0)"
  by (simp add: edge_v_def point_tri_def vsub_def f32_fast cong: let_weak_cong)

lemma point_plane_n: "plane_n point_tri = Array3 (Fin False 0) (Fin False 0) (Fin False 0)"
  by (simp add: plane_n_def point_edge_v ray_dir_def cross_def f32_fast cong: let_weak_cong)

lemma point_det: "det point_tri = Fin False 0"
  by (simp add: det_def point_edge_u point_plane_n dot_def f32_fast cong: let_weak_cong)

lemma point_pix_s: "pix_s point_tri 0 0 = Array3 (Fin False 0) (Fin False 0) (Fin False 0)"
  by (simp add: pix_s_def pix_def point_tri_def vsub_def f32_fast cong: let_weak_cong)

lemma point_pix_r: "pix_r point_tri 0 0 = Array3 (Fin False 0) (Fin False 0) (Fin False 0)"
  by (simp add: pix_r_def point_pix_s point_edge_u cross_def f32_fast cong: let_weak_cong)

lemma point_numerators:
  "dot (edge_v point_tri) (pix_r point_tri 0 0) = Fin False 0
   \<and> dot (pix_s point_tri 0 0) (plane_n point_tri) = Fin False 0
   \<and> dot ray_dir (pix_r point_tri 0 0) = Fin False 0"
  by (simp add: point_edge_v point_pix_r point_pix_s point_plane_n ray_dir_def dot_def f32_fast
      cong: let_weak_cong)

lemma point_ray_d: "ray_d point_tri 0 0 = NaN"
  by (simp add: ray_d_def point_numerators point_det f32_fast cong: let_weak_cong)

lemma point_beta: "beta point_tri 0 0 = NaN"
  by (simp add: beta_def point_numerators point_det f32_fast cong: let_weak_cong)

lemma point_gamma: "gamma point_tri 0 0 = NaN"
  by (simp add: gamma_def point_numerators point_det f32_fast cong: let_weak_cong)

lemma point_alpha: "alpha point_tri 0 0 = NaN"
  by (simp add: alpha_def point_beta point_gamma f32_fast cong: let_weak_cong)

lemma point_covered: "\<not> covered point_tri 0 0"
  by (simp add: covered_def point_det point_alpha point_beta point_gamma point_ray_d eps1_value
      eps2_value tenth_value f32_fast cong: let_weak_cong)

lemma nan_edge_u: "edge_u nan_tri = Array3 NaN NaN NaN"
  by (simp add: edge_u_def nan_tri_def vsub_def f32_fast cong: let_weak_cong)

lemma nan_edge_v: "edge_v nan_tri = Array3 NaN NaN NaN"
  by (simp add: edge_v_def nan_tri_def vsub_def f32_fast cong: let_weak_cong)

lemma nan_plane_n: "plane_n nan_tri = Array3 NaN NaN NaN"
  by (simp add: plane_n_def nan_edge_v ray_dir_def cross_def f32_fast cong: let_weak_cong)

lemma nan_det: "det nan_tri = NaN"
  by (simp add: det_def nan_edge_u nan_plane_n dot_def f32_fast cong: let_weak_cong)

lemma nan_pix_s: "pix_s nan_tri 0 0 = Array3 NaN NaN NaN"
  by (simp add: pix_s_def pix_def nan_tri_def vsub_def f32_fast cong: let_weak_cong)

lemma nan_pix_r: "pix_r nan_tri 0 0 = Array3 NaN NaN NaN"
  by (simp add: pix_r_def nan_pix_s nan_edge_u cross_def f32_fast cong: let_weak_cong)

lemma nan_numerators:
  "dot (edge_v nan_tri) (pix_r nan_tri 0 0) = NaN
   \<and> dot (pix_s nan_tri 0 0) (plane_n nan_tri) = NaN
   \<and> dot ray_dir (pix_r nan_tri 0 0) = NaN"
  by (simp add: nan_edge_v nan_pix_r nan_pix_s nan_plane_n ray_dir_def dot_def f32_fast cong:
      let_weak_cong)

lemma nan_ray_d: "ray_d nan_tri 0 0 = NaN"
  by (simp add: ray_d_def nan_numerators nan_det f32_fast cong: let_weak_cong)

lemma nan_beta: "beta nan_tri 0 0 = NaN"
  by (simp add: beta_def nan_numerators nan_det f32_fast cong: let_weak_cong)

lemma nan_gamma: "gamma nan_tri 0 0 = NaN"
  by (simp add: gamma_def nan_numerators nan_det f32_fast cong: let_weak_cong)

lemma nan_alpha: "alpha nan_tri 0 0 = NaN"
  by (simp add: alpha_def nan_beta nan_gamma f32_fast cong: let_weak_cong)

lemma nan_covered: "covered nan_tri 0 0"
  by (simp add: covered_def nan_det nan_alpha nan_beta nan_gamma nan_ray_d eps1_value eps2_value
      tenth_value f32_fast cong: let_weak_cong)

lemma nan_shade: "shade nan_tri 0 0 = Array3 NaN NaN NaN"
  by (simp add: shade_def nan_alpha nan_beta nan_gamma nan_colors main_colors vadd_def vscale_def
      f32_fast cong: let_weak_cong)

lemma flat_edges:
  "edge_u flat_tri = Array3 (Fin False (2 ^ 149)) (Fin False (2 ^ 149)) (Fin False 0)"
  "edge_v flat_tri = Array3 (Fin False (2 ^ 149)) (Fin False (2 ^ 149)) (Fin False 0)"
  by (simp_all add: edge_u_def edge_v_def flat_tri_def vsub_def f32_fast cong: let_weak_cong)

lemma wide_vertices:
  "vertices wide_tri =
     Array3 (Array3 (Fin False (2 ^ 148)) (Fin False (2 ^ 148)) (Fin False (2 ^ 149)))
            (Array3 (Fin False (2 ^ 148)) (Fin False (2 ^ 182)) (Fin False (2 ^ 149)))
            (Array3 (Fin False (2 ^ 182)) (Fin False (2 ^ 148)) (Fin False (2 ^ 149)))"
  by (simp add: wide_tri_def half_value f32_fast cong: let_weak_cong)

lemma wide_outside: "outside_hull wide_tri 0 0"
proof -
  have "\<not> in_hull (0, 0) (1 / 2, 1 / 2) (1 / 2, 2 ^ 33) (2 ^ 33, 1 / 2)"
  proof
    assume "in_hull (0, 0) (1 / 2, 1 / 2) (1 / 2, 2 ^ 33) (2 ^ 33, 1 / 2)"
    then obtain wa wb wc :: real where "0 \<le> wa" "0 \<le> wb" "0 \<le> wc" "wa + wb + wc = 1"
      and "0 = wa * (1 / 2) + wb * (1 / 2) + wc * 2 ^ 33"
      by (auto simp: in_hull_def)
    then show False
      by simp
  qed
  then show ?thesis
    by (simp add: outside_hull_def wide_vertices view_point_def valof_def)
qed

lemma main_pixel_in_range: "(83 :: u32) < WIDTH main_frame" "(82 :: u32) < HEIGHT main_frame"
  by (simp_all add: main_frame_def Frame_init_def)

subsection \<open>A sample frame and its text\<close>

lemma dec_nat_digit: "n < 10 \<Longrightarrow> dec_nat n = [''0123456789'' ! n]"
  by (subst dec_nat.simps) simp

lemma dec_nat_step:
  "10 \<le> n \<Longrightarrow> dec_nat n = dec_nat (n div 10) @ [''0123456789'' ! (n mod 10)]"
  by (subst dec_nat.simps) simp

lemma main_fill_value:
  "main_fill = Array3 (Fin False (5368709 * 2 ^ 125)) (Fin False (5368709 * 2 ^ 125))
     (Fin False (5368709 * 2 ^ 125))"
  by (simp add: main_fill_def f32_literals f32_fast cong: let_weak_cong)

lemma sample_printable: "\<forall>p \<in> set (buffer sample_frame). printable p"
  by (simp add: sample_frame_def printable_def black_def white_def main_fill_value f32_fast
      cong: let_weak_cong)

lemma sample_wf: "wf_frame sample_frame"
  by (simp add: wf_frame_def sample_frame_def)

lemma sample_text:
  "image_text sample_frame =
     ''P3 2 2 255'' @ endl @ ''81 81 81'' @ endl @ ''510 -255 0'' @ endl
     @ ''0 0 0'' @ endl @ ''255 255 255'' @ endl"
  by (simp add: image_text_def image_header_def image_row_def pixel_line_def channel_value_def
      trunc_f32_def sample_frame_def black_def white_def main_fill_value dec_int_def
      dec_nat_digit dec_nat_step upt_conv_Cons f32_fast cong: let_weak_cong)

lemma pixel_line_not_Nil: "pixel_line p \<noteq> []"
  by (simp add: pixel_line_def endl_def)

lemma image_text_rows:
  assumes "0 < unat (WIDTH f)" and "0 < unat (HEIGHT f)"
  shows "image_text f \<noteq> image_header f"
proof -
  have "image_row f 0 \<noteq> []"
    using assms(1) by (auto simp: image_row_def pixel_line_not_Nil)
  moreover have "0 \<in> set (rev [0..<unat (HEIGHT f)])"
    using assms(2) by simp
  ultimately have "concat (map (image_row f) (rev [0..<unat (HEIGHT f)])) \<noteq> []"
    by (metis (no_types, lifting) concat_eq_Nil_conv image_eqI set_map)
  then show ?thesis
    by (simp add: image_text_def)
qed

section \<open>Runs and coverage\<close>

lemma wf_frame_init:
  "unat w * unat h < 2 ^ 32 \<Longrightarrow> wf_frame (Frame_init w h fill)"
  using unat_mult_lem [of w h] by (simp add: wf_frame_def Frame_init_def)

lemma wf_main_frame: "wf_frame main_frame"
  unfolding main_frame_def by (rule wf_frame_init) simp

lemma raster_list_uncovered:
  assumes "\<forall>p \<in> set ps. \<not> covered tri (fst p) (snd p)"
  shows "raster_list tri ps st =
    Some (st\<lparr>trace := trace st @ concat (map (\<lambda>p. pixel_divisions tri (fst p) (snd p)) ps)\<rparr>)"
  using assms
proof (induction ps arbitrary: st)
  case Nil
  then show ?case by simp
next
  case (Cons p ps)
  then show ?case
    by (simp add: raster_pixel_eq pixel_events_def)
qed

lemma rasterize_uncovered:
  assumes "\<forall>x y. \<not> covered tri x y"
  shows "rasterize tri f =
    Some \<lparr>frame = f, trace = concat (map (\<lambda>p. pixel_divisions tri (fst p) (snd p))
      (frame_pixels (WIDTH f) (HEIGHT f) 0))\<rparr>"
  using assms by (simp add: rasterize_list raster_list_uncovered)

lemma rasterize_1x1:
  "rasterize tri (Frame_init 1 1 fill) =
     Some \<lparr>frame = \<lparr>WIDTH = 1, HEIGHT = 1,
                      buffer = [if covered tri 0 0 then shade tri 0 0 else fill]\<rparr>,
           trace = pixel_events tri 0 0\<rparr>"
  by (simp add: rasterize_list Frame_init_def frame_pixels_def row_pixels_def raster_pixel_eq
      setPixel_def pixel_index_def)

lemma covered_iff_no_NaN:
  assumes "det tri \<noteq> NaN" and "alpha tri x y \<noteq> NaN" and "beta tri x y \<noteq> NaN"
    and "gamma tri x y \<noteq> NaN" and "ray_d tri x y \<noteq> NaN"
  shows "covered tri x y \<longleftrightarrow>
    flt eps1 (det tri) \<and> fle (fneg eps2) (alpha tri x y) \<and> fle (fneg eps2) (beta tri x y)
    \<and> fle (fneg eps2) (gamma tri x y) \<and> flt (f32_literal 1 10) (ray_d tri x y)"
proof -
  have e: "eps1 \<noteq> NaN" "fneg eps2 \<noteq> NaN" "f32_literal 1 10 \<noteq> NaN"
    by (simp_all add: eps1_value eps2_value tenth_value)
  show ?thesis
    unfolding covered_def de_Morgan_disj
    using assms e by (simp add: not_fle_iff not_flt_iff)
qed

section \<open>Magnitudes in the run of the program\<close>

text \<open>
  Rounding to nearest never exceeds a power of two that bounds the exact value, so bounds
  by powers of two pass through sums, products and quotients.
\<close>

lemma bit_length_le:
  assumes "n \<le> 2 ^ e"
  shows "bit_length n \<le> Suc e"
proof (cases "n = 0")
  case True
  then show ?thesis
    by (subst bit_length.simps) simp
next
  case False
  then have "(2 :: nat) ^ (bit_length n - 1) \<le> n"
    by (intro bit_length_lower) simp
  from this assms have "(2 :: nat) ^ (bit_length n - 1) \<le> 2 ^ e"
    by (rule order_trans)
  then have "bit_length n - 1 \<le> e"
    by simp
  then show ?thesis
    by simp
qed

lemma round_even_le_power:
  assumes n: "n \<le> 2 ^ e * d" and d: "0 < d"
  shows "round_even 24 n d \<le> 2 ^ e"
proof -
  define j where "j = bit_length (n div d) - 24"
  define d' where "d' = d * 2 ^ j"
  define q where "q = n div d'"
  define r where "r = n mod d'"
  have R: "round_even 24 n d =
      (if 2 * r < d' then q else if d' < 2 * r then q + 1 else if even q then q else q + 1) * 2 ^ j"
    by (simp add: round_even_def Let_def j_def [symmetric] d'_def [symmetric] q_def [symmetric]
        r_def [symmetric])
  have "n div d \<le> 2 ^ e * d div d"
    using n by (rule div_le_mono)
  then have "n div d \<le> 2 ^ e"
    using d by simp
  then have "bit_length (n div d) \<le> Suc e"
    by (rule bit_length_le)
  then have je: "j \<le> e"
    unfolding j_def by simp
  have d': "0 < d'"
    using d by (simp add: d'_def)
  have split: "(2 :: nat) ^ e * d = 2 ^ (e - j) * d'"
    using je by (simp add: d'_def power_add [symmetric])
  have nqr: "n = q * d' + r" and rlt: "r < d'"
    using d' by (simp_all add: q_def r_def)
  have qle: "q \<le> 2 ^ (e - j)"
  proof (rule ccontr)
    assume "\<not> q \<le> 2 ^ (e - j)"
    then have "2 ^ (e - j) + 1 \<le> q"
      by simp
    then have "(2 ^ (e - j) + 1) * d' \<le> q * d'"
      by (rule mult_le_mono1)
    also have "\<dots> \<le> n"
      using nqr by simp
    finally have "(2 ^ (e - j) + 1) * d' \<le> n" .
    also have "n \<le> 2 ^ (e - j) * d'"
      using n by (simp only: split)
    finally have "2 ^ (e - j) * d' + d' \<le> 2 ^ (e - j) * d'"
      by (simp add: algebra_simps)
    with d' show False
      by simp
  qed
  have pw: "(2 :: nat) ^ (e - j) * 2 ^ j = 2 ^ e"
    using je by (simp add: power_add [symmetric])
  show ?thesis
  proof (cases "q = 2 ^ (e - j)")
    case True
    then have "q * d' + r \<le> q * d'"
      using n nqr split by simp
    then have "r = 0"
      by simp
    with d' R True pw show ?thesis
      by simp
  next
    case False
    with qle have "q + 1 \<le> 2 ^ (e - j)"
      by simp
    then have "(q + 1) * 2 ^ j \<le> 2 ^ (e - j) * 2 ^ j"
      by (rule mult_le_mono1)
    moreover have "round_even 24 n d \<le> (q + 1) * 2 ^ j"
      by (simp add: R)
    ultimately show ?thesis
      using pw by simp
  qed
qed

lemma f32_round_fits:
  assumes "n \<le> 2 ^ e * d" and "0 < d" and "e < 277"
  shows "fits e (f32_round s n d)"
proof -
  have "round_even 24 n d \<le> 2 ^ e"
    using assms(1,2) by (rule round_even_le_power)
  moreover have "(2 :: nat) ^ e < 2 ^ 277"
    using assms(3) by (intro power_strict_increasing) simp_all
  ultimately show ?thesis
    by (simp add: f32_round_def Let_def)
qed

lemma fits_mono: "fits a x \<Longrightarrow> a \<le> b \<Longrightarrow> fits b x"
proof (cases x)
  case (Fin s k)
  assume "fits a x" and ab: "a \<le> b"
  with Fin have "k \<le> 2 ^ a"
    by simp
  also have "(2 :: nat) ^ a \<le> 2 ^ b"
    using ab by (rule power_increasing) simp
  finally show ?thesis
    by (simp add: Fin)
qed simp_all

lemma fits_fneg [simp]: "fits e (fneg x) = fits e x"
  by (cases x) simp_all

lemma fits_fadd:
  assumes "fits a x" and "fits a y" and "Suc a < 277"
  shows "fits (Suc a) (fadd x y)"
proof -
  obtain s k t l where xy: "x = Fin s k" "y = Fin t l"
    using assms(1,2) by (cases x; cases y) simp_all
  have k: "k \<le> 2 ^ a" and l: "l \<le> 2 ^ a"
    using assms(1,2) by (simp_all add: xy)
  define v where "v = sval s k + sval t l"
  have "\<bar>v\<bar> \<le> int k + int l"
    by (auto simp: v_def sval_def)
  then have "nat \<bar>v\<bar> \<le> k + l"
    by simp
  also have "\<dots> \<le> 2 ^ Suc a * 1"
    using k l by simp
  finally have "fits (Suc a) (f32_round (v < 0) (nat \<bar>v\<bar>) 1)"
    using assms(3) by (intro f32_round_fits) simp_all
  then show ?thesis
    by (simp add: xy fadd.simps(7) v_def [symmetric] Let_def)
qed

lemma fits_fsub:
  "fits a x \<Longrightarrow> fits a y \<Longrightarrow> Suc a < 277 \<Longrightarrow> fits (Suc a) (fsub x y)"
  by (simp add: fsub_def fits_fadd)

lemma fits_fmul:
  assumes "fits a x" and "fits b y" and "149 \<le> a + b" and "a + b < 426"
  shows "fits (a + b - 149) (fmul x y)"
proof -
  obtain s k t l where xy: "x = Fin s k" "y = Fin t l"
    using assms(1,2) by (cases x; cases y) simp_all
  have "k \<le> 2 ^ a" and "l \<le> 2 ^ b"
    using assms(1,2) by (simp_all add: xy)
  then have "k * l \<le> 2 ^ a * 2 ^ b"
    by (rule mult_le_mono)
  also have "\<dots> = 2 ^ (a + b - 149) * 2 ^ 149"
    using assms(3) by (simp only: power_add [symmetric]) simp
  finally have "fits (a + b - 149) (f32_round (s \<noteq> t) (k * l) (2 ^ 149))"
    using assms(4) by (intro f32_round_fits) simp_all
  then show ?thesis
    by (simp add: xy fmul.simps(7))
qed

lemma fits_fdiv:
  assumes "fits a x" and "2 ^ c \<le> l" and "c \<le> a + 149" and "a + 149 < 277 + c"
  shows "fits (a + 149 - c) (fdiv x (Fin t l))"
proof -
  obtain s k where x: "x = Fin s k"
    using assms(1) by (cases x) simp_all
  have l: "0 < l"
    using assms(2) by (cases "l = 0") simp_all
  have "k \<le> 2 ^ a"
    using assms(1) by (simp add: x)
  then have "k * 2 ^ 149 \<le> 2 ^ a * 2 ^ 149"
    by (rule mult_le_mono1)
  also have "\<dots> = 2 ^ (a + 149 - c) * 2 ^ c"
    using assms(3) by (simp only: power_add [symmetric]) simp
  also have "\<dots> \<le> 2 ^ (a + 149 - c) * l"
    using assms(2) by (rule mult_le_mono2)
  finally have "fits (a + 149 - c) (f32_round (s \<noteq> t) (k * 2 ^ 149) l)"
    using assms(4) l by (intro f32_round_fits) simp_all
  with l show ?thesis
    by (simp add: x)
qed

lemma fits_f32_of_nat:
  assumes "n \<le> 2 ^ m" and "m < 128"
  shows "fits (m + 149) (f32_of_nat n)"
proof -
  have "n * 2 ^ 149 \<le> 2 ^ m * 2 ^ 149"
    using assms(1) by (rule mult_le_mono1)
  then have "n * 2 ^ 149 \<le> 2 ^ (m + 149) * 1"
    by (simp add: power_add)
  then show ?thesis
    unfolding f32_of_nat_def using assms(2) by (intro f32_round_fits) simp_all
qed

lemma fits_int_of_f32:
  assumes "fits e x" and "e \<le> 179"
  shows "int_of_f32 x \<noteq> None"
proof -
  obtain s k where x: "x = Fin s k"
    using assms(1) by (cases x) simp_all
  have "k \<le> 2 ^ e"
    using assms(1) by (simp add: x)
  also have "(2 :: nat) ^ e \<le> 2 ^ 179"
    using assms(2) by (intro power_increasing) simp_all
  finally have "k div 2 ^ 149 \<le> 2 ^ 179 div 2 ^ 149"
    by (rule div_le_mono)
  then have "k div 2 ^ 149 \<le> 2 ^ 30"
    by simp
  then have "int (k div 2 ^ 149) \<le> 2 ^ 30"
    by (metis of_nat_le_iff of_nat_numeral of_nat_power)
  then show ?thesis
    by (simp add: x Let_def sval_def)
qed

lemma vfits_mono: "vfits a v \<Longrightarrow> a \<le> b \<Longrightarrow> vfits b v"
  by (auto simp: vfits_def intro: fits_mono)

lemma vfits_vsub: "vfits a u \<Longrightarrow> vfits a v \<Longrightarrow> Suc a < 277 \<Longrightarrow> vfits (Suc a) (vsub u v)"
  by (simp add: vfits_def vsub_def fits_fsub)

lemma vfits_vadd: "vfits a u \<Longrightarrow> vfits a v \<Longrightarrow> Suc a < 277 \<Longrightarrow> vfits (Suc a) (vadd u v)"
  by (simp add: vfits_def vadd_def fits_fadd)

lemma vfits_vscale:
  "vfits a c \<Longrightarrow> fits b w \<Longrightarrow> 149 \<le> a + b \<Longrightarrow> a + b < 426 \<Longrightarrow> vfits (a + b - 149) (vscale c w)"
  by (simp add: vfits_def vscale_def fits_fmul)

lemma vfits_cross:
  assumes "vfits a u" and "vfits b v" and "149 \<le> a + b" and "a + b < 425"
  shows "vfits (Suc (a + b - 149)) (cross u v)"
proof -
  have p: "fits (a + b - 149) (fmul x y)" if "fits a x" "fits b y" for x y
    using that assms(3,4) by (intro fits_fmul) simp_all
  have "Suc (a + b - 149) < 277"
    using assms(3,4) by simp
  with p assms(1,2) show ?thesis
    by (simp add: vfits_def cross_def fits_fsub)
qed

lemma fits_dot:
  assumes "vfits a u" and "vfits b v" and "149 \<le> a + b" and "a + b < 424"
  shows "fits (Suc (Suc (a + b - 149))) (dot u v)"
proof -
  let ?c = "a + b - 149"
  have p: "fits ?c (fmul x y)" if "fits a x" "fits b y" for x y
    using that assms(3,4) by (intro fits_fmul) simp_all
  have c: "Suc ?c < 277" "Suc (Suc ?c) < 277"
    using assms(3,4) by simp_all
  have f: "fits a (at0 u)" "fits a (at1 u)" "fits a (at2 u)"
    "fits b (at0 v)" "fits b (at1 v)" "fits b (at2 v)"
    using assms(1,2) by (simp_all add: vfits_def)
  have "fits (Suc ?c) (fadd (fmul (at0 u) (at0 v)) (fmul (at1 u) (at1 v)))"
    using p [OF f(1,4)] p [OF f(2,5)] c(1) by (rule fits_fadd)
  moreover have "fits (Suc ?c) (fmul (at2 u) (at2 v))"
    using p [OF f(3,6)] by (rule fits_mono) simp
  ultimately show ?thesis
    unfolding dot_def using c(2) by (rule fits_fadd)
qed

text \<open>
  In the program the coordinates are below 1024 and the determinant is \<open>525 * 2 ^ 9\<close>, so
  the weights stay below \<open>2 ^ 8\<close> in magnitude and every colour the raster loop writes can
  be converted to \<^verbatim>\<open>int\<close> when \<^verbatim>\<open>writeBuffer\<close> prints it.
\<close>

lemma fits_coordinate:
  assumes "x < (1024 :: u32)"
  shows "fits 159 (f32_of_nat (unat x))"
proof -
  have "unat x < 1024"
    using assms by (simp add: word_less_nat_alt)
  then have "unat x \<le> 2 ^ 10"
    by simp
  then have "fits (10 + 149) (f32_of_nat (unat x))"
    by (rule fits_f32_of_nat) simp
  then show ?thesis
    by simp
qed

lemma main_vertex0_fits: "vfits 159 (at0 (vertices main_tri))"
proof -
  have "fits (10 + 149) (f32_of_nat n)" if "n \<le> 2 ^ 10" for n
    using that by (rule fits_f32_of_nat) simp
  then have "fits 159 (f32_of_nat 80)" "fits 159 (f32_of_nat 100)"
    by simp_all
  then show ?thesis
    by (simp add: main_tri_def vfits_def)
qed

lemma main_edges_fit:
  "vfits 159 (edge_u main_tri)" "vfits 159 (plane_n main_tri)" "vfits 149 ray_dir"
  "vfits 149 (at0 (colors main_tri))" "vfits 149 (at1 (colors main_tri))"
  "vfits 149 (at2 (colors main_tri))"
  by (simp_all add: main_edge_u main_plane_n main_colors ray_dir_def vfits_def f32_zero_def
      f32_one_def)

lemma main_weights_fit:
  assumes x: "x < 1024" and y: "y < 1024"
  shows "fits 157 (alpha main_tri x y)" and "fits 154 (beta main_tri x y)"
    and "fits 155 (gamma main_tri x y)"
proof -
  have "vfits 159 (pix x y)"
    using fits_coordinate [OF x] fits_coordinate [OF y]
    by (simp add: pix_def vfits_def f32_zero_def)
  then have s: "vfits 160 (pix_s main_tri x y)"
    unfolding pix_s_def using vfits_vsub [OF _ main_vertex0_fits, of "pix x y"] by simp
  have r: "vfits 171 (pix_r main_tri x y)"
    unfolding pix_r_def using vfits_cross [OF s main_edges_fit(1)] by simp
  have d: "(2 :: nat) ^ 167 \<le> 525 * 2 ^ 158"
    by simp
  have "fits 172 (dot (pix_s main_tri x y) (plane_n main_tri))"
    using fits_dot [OF s main_edges_fit(2)] by simp
  from fits_fdiv [OF this d, of False]
  show b: "fits 154 (beta main_tri x y)"
    by (simp add: beta_def main_det)
  have "fits 173 (dot ray_dir (pix_r main_tri x y))"
    using fits_dot [OF main_edges_fit(3) r] by simp
  from fits_fdiv [OF this d, of False]
  show g: "fits 155 (gamma main_tri x y)"
    by (simp add: gamma_def main_det)
  have "fits 156 (fadd (beta main_tri x y) (gamma main_tri x y))"
    using fits_fadd [OF fits_mono [OF b, of 155] g] by simp
  moreover have "fits 156 f32_one"
    by (simp add: f32_one_def)
  ultimately show "fits 157 (alpha main_tri x y)"
    unfolding alpha_def using fits_fsub [of 156 f32_one] by simp
qed

lemma main_shade_fits:
  assumes "x < 1024" and "y < 1024"
  shows "vfits 159 (shade main_tri x y)"
proof -
  note w = main_weights_fit [OF assms]
  have a: "vfits 157 (vscale (at0 (colors main_tri)) (alpha main_tri x y))"
    using vfits_vscale [OF main_edges_fit(4) w(1)] by simp
  have "vfits 154 (vscale (at1 (colors main_tri)) (beta main_tri x y))"
    using vfits_vscale [OF main_edges_fit(5) w(2)] by simp
  then have b: "vfits 157 (vscale (at1 (colors main_tri)) (beta main_tri x y))"
    by (rule vfits_mono) simp
  have "vfits 155 (vscale (at2 (colors main_tri)) (gamma main_tri x y))"
    using vfits_vscale [OF main_edges_fit(6) w(3)] by simp
  then have "vfits 158 (vscale (at2 (colors main_tri)) (gamma main_tri x y))"
    by (rule vfits_mono) simp
  moreover have "vfits 158 (vadd (vscale (at0 (colors main_tri)) (alpha main_tri x y))
      (vscale (at1 (colors main_tri)) (beta main_tri x y)))"
    using vfits_vadd [OF a b] by simp
  ultimately show ?thesis
    unfolding shade_def using vfits_vadd [of 158] by simp
qed

lemma vfits_printable:
  assumes "vfits 159 p"
  shows "printable p"
proof -
  have "(255 :: nat) \<le> 2 ^ 8"
    by simp
  then have "fits (8 + 149) (f32_of_nat 255)"
    by (rule fits_f32_of_nat) simp
  then have c: "fits 157 (f32_of_nat 255)"
    by simp
  have "int_of_f32 (fmul x (f32_of_nat 255)) \<noteq> None" if "fits 159 x" for x
  proof -
    have "fits (159 + 157 - 149) (fmul x (f32_of_nat 255))"
      using that c by (rule fits_fmul) simp_all
    then show ?thesis
      by (rule fits_int_of_f32) simp
  qed
  with assms show ?thesis
    by (simp add: printable_def vfits_def)
qed

lemma main_fill_printable: "printable main_fill"
  by (rule vfits_printable) (simp add: main_fill_value vfits_def)

lemma index_pixel:
  assumes wf: "wf_frame f" and i: "i < length (buffer f)"
  shows "\<exists>x y. x < WIDTH f \<and> y < HEIGHT f \<and> pixel_index f x y = i"
proof -
  let ?w = "unat (WIDTH f)" and ?h = "unat (HEIGHT f)"
  have len: "length (buffer f) = ?w * ?h"
    using wf by (simp add: wf_frame_def)
  have w: "0 < ?w"
    using i len by (cases "?w = 0") simp_all
  define x :: u32 where "x = of_nat (i mod ?w)"
  define y :: u32 where "y = of_nat (i div ?w)"
  have m: "i mod ?w < ?w"
    using w by simp
  have dv: "i div ?w < ?h"
    using i len w by (simp add: less_mult_imp_div_less mult.commute)
  have bw: "?w < 2 ^ 32" and bh: "?h < 2 ^ 32"
    using unsigned_less [of "WIDTH f"] unsigned_less [of "HEIGHT f"] by simp_all
  have ux: "unat x = i mod ?w"
    unfolding x_def using m bw by (simp add: unat_of_nat)
  have uy: "unat y = i div ?w"
    unfolding y_def using dv bh by (simp add: unat_of_nat)
  have xl: "x < WIDTH f" and yl: "y < HEIGHT f"
    using m dv by (simp_all add: word_less_nat_alt ux uy)
  have "pixel_index f x y = i"
    using pixel_index_wf(1) [OF wf xl yl] by (simp add: ux uy)
  with xl yl show ?thesis
    by blast
qed

lemma rasterize_cells:
  assumes wf: "wf_frame f" and run: "rasterize tri f = Some st"
    and p: "p \<in> set (buffer (frame st))"
  shows "p \<in> set (buffer f) \<or> (\<exists>x y. x < WIDTH f \<and> y < HEIGHT f \<and> p = shade tri x y)"
proof -
  obtain i where i: "i < length (buffer (frame st))" and pi: "p = buffer (frame st) ! i"
    using p by (auto simp: in_set_conv_nth)
  have len: "length (buffer (frame st)) = length (buffer f)"
    using rasterize_dims(3) [OF run] .
  have "i < length (buffer f)"
    using i len by simp
  from index_pixel [OF wf this]
  obtain x y where xy: "x < WIDTH f" "y < HEIGHT f" and ix: "pixel_index f x y = i"
    by blast
  have "pixel_index (frame st) x y = i"
    using ix rasterize_dims(1) [OF run] by (simp add: pixel_index_def)
  then have "getPixel (frame st) x y = Some p"
    using i by (simp add: getPixel_def pi)
  with rasterize_pixel [OF wf run xy]
  have "p = (if covered tri x y then shade tri x y else buffer f ! i)"
    by (simp add: ix)
  then show ?thesis
    using xy i len by (cases "covered tri x y") auto
qed

lemma main_cells_printable:
  assumes "rasterize main_tri main_frame = Some st"
  shows "\<forall>p \<in> set (buffer (frame st)). printable p"
proof
  fix p
  assume "p \<in> set (buffer (frame st))"
  from rasterize_cells [OF wf_main_frame assms this]
  show "printable p"
  proof (elim disjE exE conjE)
    assume "p \<in> set (buffer main_frame)"
    then have "p = main_fill"
      by (simp add: main_frame_def Frame_init_def)
    then show ?thesis
      by (simp add: main_fill_printable)
  next
    fix x y
    assume "x < WIDTH main_frame" "y < HEIGHT main_frame" "p = shade main_tri x y"
    then show ?thesis
      using main_shade_fits [of x y] by (simp add: main_frame_def Frame_init_def vfits_printable)
  qed
qed

section \<open>The claims\<close>

subsection \<open>C1: which pixels are covered\<close>

text \<open>
  C1, as amended. For a pixel \<open>(x, y)\<close> of the frame, the pixel is covered exactly when
  none of the five rejection tests of the source holds: \<open>a \<le> eps1\<close>,
  \<open>\<alpha> < -eps2\<close>, \<open>\<beta> < -eps2\<close>, \<open>\<gamma> < -eps2\<close>, \<open>d \<le> 0.1f\<close>, where \<open>a\<close> is the determinant
  \<open>dot (u, cross (dir, v))\<close> and \<open>d = dot (v, r) / a\<close>. The run writes the pixel exactly
  when it is covered. When none of \<open>a\<close>, \<open>\<alpha>\<close>, \<open>\<beta>\<close>, \<open>\<gamma>\<close>, \<open>d\<close> is NaN, covered means
  \<open>a > eps1\<close>, each weight at least \<open>-eps2\<close>, and \<open>d > 0.1f\<close>.
\<close>

theorem coverage_test:
  assumes "rasterize tri f = Some st" and "x < WIDTH f" and "y < HEIGHT f"
  shows "(covered tri x y \<longleftrightarrow>
        \<not> (fle (det tri) eps1 \<or> flt (alpha tri x y) (fneg eps2) \<or> flt (beta tri x y) (fneg eps2)
           \<or> flt (gamma tri x y) (fneg eps2) \<or> fle (ray_d tri x y) (f32_literal 1 10)))
    \<and> ((\<exists>c. SetPixel x y c \<in> set (trace st)) \<longleftrightarrow> covered tri x y)
    \<and> (det tri \<noteq> NaN \<and> alpha tri x y \<noteq> NaN \<and> beta tri x y \<noteq> NaN \<and> gamma tri x y \<noteq> NaN
        \<and> ray_d tri x y \<noteq> NaN \<longrightarrow>
        (covered tri x y \<longleftrightarrow>
           flt eps1 (det tri) \<and> fle (fneg eps2) (alpha tri x y) \<and> fle (fneg eps2) (beta tri x y)
           \<and> fle (fneg eps2) (gamma tri x y) \<and> flt (f32_literal 1 10) (ray_d tri x y)))"
proof (intro conjI impI)
  show "covered tri x y \<longleftrightarrow>
      \<not> (fle (det tri) eps1 \<or> flt (alpha tri x y) (fneg eps2) \<or> flt (beta tri x y) (fneg eps2)
         \<or> flt (gamma tri x y) (fneg eps2) \<or> fle (ray_d tri x y) (f32_literal 1 10))"
    by (simp add: covered_def)
  show "(\<exists>c. SetPixel x y c \<in> set (trace st)) \<longleftrightarrow> covered tri x y"
    using assms by (simp add: SetPixel_in_trace [OF assms(1)])
next
  assume "det tri \<noteq> NaN \<and> alpha tri x y \<noteq> NaN \<and> beta tri x y \<noteq> NaN \<and> gamma tri x y \<noteq> NaN
        \<and> ray_d tri x y \<noteq> NaN"
  then show "covered tri x y \<longleftrightarrow>
      flt eps1 (det tri) \<and> fle (fneg eps2) (alpha tri x y) \<and> fle (fneg eps2) (beta tri x y)
      \<and> fle (fneg eps2) (gamma tri x y) \<and> flt (f32_literal 1 10) (ray_d tri x y)"
    by (intro covered_iff_no_NaN) simp_all
qed

text \<open>
  The pixel \<open>(83, 82)\<close> of the program: \<open>a = 525 * 2 ^ 9\<close>, \<open>d = 100\<close>, and the three
  weights are positive; the pixel is written.
\<close>

theorem coverage_test_witness:
  "\<exists>st. rasterize main_tri main_frame = Some st
     \<and> det main_tri \<noteq> NaN \<and> alpha main_tri 83 82 \<noteq> NaN \<and> beta main_tri 83 82 \<noteq> NaN
     \<and> gamma main_tri 83 82 \<noteq> NaN \<and> ray_d main_tri 83 82 \<noteq> NaN
     \<and> (\<exists>c. SetPixel 83 82 c \<in> set (trace st))
     \<and> flt eps1 (det main_tri) \<and> fle (fneg eps2) (alpha main_tri 83 82)
     \<and> fle (fneg eps2) (beta main_tri 83 82) \<and> fle (fneg eps2) (gamma main_tri 83 82)
     \<and> flt (f32_literal 1 10) (ray_d main_tri 83 82)"
proof -
  obtain st where run: "rasterize main_tri main_frame = Some st"
    using rasterize_defined [OF wf_main_frame] by blast
  have n: "det main_tri \<noteq> NaN \<and> alpha main_tri 83 82 \<noteq> NaN \<and> beta main_tri 83 82 \<noteq> NaN
      \<and> gamma main_tri 83 82 \<noteq> NaN \<and> ray_d main_tri 83 82 \<noteq> NaN"
    by (simp add: main_det main_alpha main_beta main_gamma main_ray_d)
  from coverage_test [OF run main_pixel_in_range] n main_covered run show ?thesis
    by blast
qed

text \<open>
  C1 as stated fails when a quantity is NaN. The triangle \<open>(0, 0, 0)\<close>,
  \<open>(2 ^ 64, 2 ^ 64, 0)\<close>, \<open>(2 ^ 64, 2 ^ 64, 0)\<close> has finite vertices; \<open>u = v =
  (2 ^ 64, 2 ^ 64, 0)\<close>, \<open>n = cross (dir, v) = (-2 ^ 64, 2 ^ 64, 0)\<close>, and
  \<open>a = u[0] * n[0] + u[1] * n[1]\<close> is \<open>-\<infinity> + \<infinity>\<close>, a NaN, because \<open>2 ^ 128\<close> is beyond
  the largest binary32 value. The three quotients by \<open>a\<close> are NaN, and so is \<open>\<alpha>\<close>. Every
  comparison with a NaN is false: \<open>a > eps1\<close>, \<open>\<alpha> \<ge> -eps2\<close> and \<open>d > 0.1f\<close> are all false,
  and so are the five rejection tests, so the pixel \<open>(0, 0)\<close> is covered and written.
\<close>

theorem coverage_test_counterexample:
  "det far_tri = NaN \<and> \<not> flt eps1 (det far_tri)
   \<and> alpha far_tri 0 0 = NaN \<and> \<not> fle (fneg eps2) (alpha far_tri 0 0)
   \<and> ray_d far_tri 0 0 = NaN \<and> \<not> flt (f32_literal 1 10) (ray_d far_tri 0 0)
   \<and> covered far_tri 0 0
   \<and> Option.bind (rasterize far_tri (Frame_init 1 1 black)) (\<lambda>st. Some (trace st))
       = Some [Divide (Fin False 0) NaN, Divide (Fin False 0) NaN, Divide (Fin False 0) NaN,
               SetPixel 0 0 (Array3 NaN NaN NaN)]"
  by (simp add: rasterize_1x1 pixel_events_def pixel_divisions_def far_det far_alpha far_ray_d
      far_covered far_shade far_numerators)

subsection \<open>C2: the colour of a covered pixel\<close>

text \<open>
  C2. For a covered pixel \<open>(x, y)\<close> of the frame, the run calls \<open>setPixel\<close> at \<open>(x, y)\<close>
  with \<open>colors[0] * \<alpha> + colors[1] * \<beta> + colors[2] * \<gamma>\<close>, each operation componentwise in
  single precision and nothing clamped; it is the only colour written to \<open>(x, y)\<close>, and in
  a well-formed frame it is what \<open>getPixel\<close> reads there afterwards.
\<close>

theorem shaded_colour_written:
  assumes "rasterize tri f = Some st" and "x < WIDTH f" and "y < HEIGHT f"
    and "covered tri x y"
  shows "SetPixel x y
        (vadd (vadd (vscale (at0 (colors tri)) (alpha tri x y))
                    (vscale (at1 (colors tri)) (beta tri x y)))
              (vscale (at2 (colors tri)) (gamma tri x y))) \<in> set (trace st)
    \<and> (\<forall>c. SetPixel x y c \<in> set (trace st) \<longrightarrow>
          c = vadd (vadd (vscale (at0 (colors tri)) (alpha tri x y))
                         (vscale (at1 (colors tri)) (beta tri x y)))
                   (vscale (at2 (colors tri)) (gamma tri x y)))
    \<and> (wf_frame f \<longrightarrow>
          getPixel (frame st) x y =
            Some (vadd (vadd (vscale (at0 (colors tri)) (alpha tri x y))
                             (vscale (at1 (colors tri)) (beta tri x y)))
                       (vscale (at2 (colors tri)) (gamma tri x y))))"
  using assms rasterize_pixel [of f tri st x y]
  by (simp add: SetPixel_in_trace [OF assms(1)] shade_def)

text \<open>The pixel \<open>(83, 82)\<close> of the program and the colour it receives.\<close>

theorem shaded_colour_written_witness:
  "\<exists>st. rasterize main_tri main_frame = Some st
     \<and> SetPixel 83 82 (Array3 (Fin False (14088667 * 2 ^ 125)) (Fin False (13988003 * 2 ^ 125))
          (Fin False (13958643 * 2 ^ 118))) \<in> set (trace st)
     \<and> getPixel (frame st) 83 82 =
          Some (Array3 (Fin False (14088667 * 2 ^ 125)) (Fin False (13988003 * 2 ^ 125))
            (Fin False (13958643 * 2 ^ 118)))"
proof -
  obtain st where run: "rasterize main_tri main_frame = Some st"
    using rasterize_defined [OF wf_main_frame] by blast
  from shaded_colour_written [OF run main_pixel_in_range main_covered] wf_main_frame run
  show ?thesis
    using main_shade by (simp add: shade_def)
qed

subsection \<open>C3: a determinant below the threshold\<close>

text \<open>
  C3, as amended. At a pixel where \<open>a \<le> eps1\<close> the pixel is not covered: the step
  changes nothing in the frame. The three divisions by \<open>a\<close> (for \<open>d\<close>, \<open>\<beta>\<close> and \<open>\<gamma>\<close>)
  have been evaluated before the test, and they are all the step does.
\<close>

theorem degenerate_pixel_skipped_after_division:
  assumes "fle (det tri) eps1"
  shows "raster_pixel tri x y st =
      Some (st\<lparr>trace := trace st @
        [Divide (dot (edge_v tri) (pix_r tri x y)) (det tri),
         Divide (dot (pix_s tri x y) (plane_n tri)) (det tri),
         Divide (dot ray_dir (pix_r tri x y)) (det tri)]\<rparr>)
    \<and> \<not> covered tri x y"
  using assms by (simp add: raster_pixel_eq0 not_covered_small_det pixel_divisions_def)

text \<open>Three equal vertices: \<open>a = 0\<close>, and the step at \<open>(0, 0)\<close> is the three divisions.\<close>

theorem degenerate_pixel_skipped_after_division_witness:
  "fle (det point_tri) eps1
   \<and> raster_pixel point_tri 0 0 \<lparr>frame = Frame_init 1 1 black, trace = []\<rparr> =
       Some \<lparr>frame = Frame_init 1 1 black,
             trace = [Divide (dot (edge_v point_tri) (pix_r point_tri 0 0)) (det point_tri),
                      Divide (dot (pix_s point_tri 0 0) (plane_n point_tri)) (det point_tri),
                      Divide (dot ray_dir (pix_r point_tri 0 0)) (det point_tri)]\<rparr>"
proof -
  have z: "fle (det point_tri) eps1"
    by (simp add: point_det fle_zero_eps1)
  from degenerate_pixel_skipped_after_division [OF z, of 0 0 "\<lparr>frame = Frame_init 1 1 black, trace = []\<rparr>"] z
  show ?thesis
    by simp
qed

text \<open>
  C3 as stated fails: the source computes \<open>d\<close>, \<^verbatim>\<open>barycentrics[1]\<close> and
  \<^verbatim>\<open>barycentrics[2]\<close> in lines 121 to 125, the test of \<open>a\<close> comes in line 135.
  With three equal vertices at the origin \<open>a = 0 \<le> eps1\<close>, and at the pixel \<open>(0, 0)\<close>
  the program divides \<open>0\<close> by \<open>0\<close> three times.
\<close>

theorem division_by_zero_determinant_counterexample:
  "det point_tri = Fin False 0 \<and> fle (det point_tri) eps1
   \<and> raster_pixel point_tri 0 0 \<lparr>frame = Frame_init 1 1 black, trace = []\<rparr> =
       Some \<lparr>frame = Frame_init 1 1 black,
             trace = [Divide (Fin False 0) (Fin False 0), Divide (Fin False 0) (Fin False 0),
                      Divide (Fin False 0) (Fin False 0)]\<rparr>"
  by (simp add: raster_pixel_eq0 point_covered pixel_divisions_def point_det point_numerators
      fle_zero_eps1)

subsection \<open>C4: a zero determinant, and NaN\<close>

text \<open>
  C4, as amended. When the determinant \<open>a\<close> is a zero (of either sign), no pixel is
  covered: the run ends, it calls \<open>setPixel\<close> nowhere, and the frame is the frame it
  started from.
\<close>

theorem zero_determinant_no_coverage:
  assumes "is_zero (det tri)"
  shows "\<exists>st. rasterize tri f = Some st \<and> frame st = f
    \<and> (\<forall>x y c. SetPixel x y c \<notin> set (trace st)) \<and> (\<forall>x y. \<not> covered tri x y)"
proof -
  have nc: "\<forall>x y. \<not> covered tri x y"
    using assms by (simp add: not_covered_small_det fle_zero_eps1)
  from rasterize_uncovered [OF nc, of f] nc show ?thesis
    by (simp add: pixel_divisions_def)
qed

text \<open>Three equal vertices, on the program's frame.\<close>

theorem zero_determinant_no_coverage_witness:
  "is_zero (det point_tri) \<and> (\<exists>st. rasterize point_tri main_frame = Some st \<and> frame st = main_frame)"
proof -
  have z: "is_zero (det point_tri)"
    by (simp add: point_det)
  from zero_determinant_no_coverage [OF z, of main_frame] z show ?thesis
    by blast
qed

text \<open>
  C4 as stated fails for NaN. With vertex 0 equal to \<open>(NaN, NaN, NaN)\<close> every computed
  quantity is NaN, no rejection test holds, and the pixel \<open>(0, 0)\<close> of a 1 by 1 black frame
  is overwritten with the colour \<open>(NaN, NaN, NaN)\<close>.
\<close>

theorem nan_triangle_counterexample:
  "det nan_tri = NaN
   \<and> getPixel (Frame_init 1 1 black) 0 0 = Some black
   \<and> Option.bind (rasterize nan_tri (Frame_init 1 1 black)) (\<lambda>st. getPixel (frame st) 0 0)
       = Some (Array3 NaN NaN NaN)
   \<and> Array3 NaN NaN NaN \<noteq> black"
proof -
  have "rasterize nan_tri (Frame_init 1 1 black) =
      Some \<lparr>frame = \<lparr>WIDTH = 1, HEIGHT = 1, buffer = [Array3 NaN NaN NaN]\<rparr>,
            trace = pixel_events nan_tri 0 0\<rparr>"
    by (simp add: rasterize_1x1 nan_covered nan_shade)
  then show ?thesis
    by (simp add: nan_det getPixel_def pixel_index_def Frame_init_def black_def f32_zero_def)
qed

subsection \<open>C5: a triangle without area\<close>

text \<open>
  C5, as amended. When the edge vectors \<open>u\<close> and \<open>v\<close> that the program computes are
  finite, their projections span no area (\<open>u[0] * v[1] = u[1] * v[0]\<close> exactly) and the
  product \<open>u[0] * v[1]\<close> does not overflow in single precision, no pixel is covered: the
  run calls \<open>setPixel\<close> nowhere and the frame is the frame it started from. Two identical
  vertices are such a triangle (lemma \<open>identical_vertices_zero_area\<close>) when the vertices
  are finite and, for \<open>vertex1 = vertex2\<close>, when \<open>u[0] * u[1]\<close> does not overflow.
\<close>

theorem zero_area_no_coverage:
  assumes "vfinite (edge_u tri)" and "vfinite (edge_v tri)"
    and "valof (at0 (edge_u tri)) * valof (at1 (edge_v tri))
       = valof (at1 (edge_u tri)) * valof (at0 (edge_v tri))"
    and "is_finite (fmul (at0 (edge_u tri)) (at1 (edge_v tri)))"
  shows "\<exists>st. rasterize tri f = Some st \<and> frame st = f
    \<and> (\<forall>x y c. SetPixel x y c \<notin> set (trace st)) \<and> (\<forall>x y. \<not> covered tri x y)"
proof -
  have "is_zero (det tri)"
    using assms by (rule det_zero_parallel)
  then have nc: "\<forall>x y. \<not> covered tri x y"
    by (simp add: not_covered_small_det fle_zero_eps1)
  from rasterize_uncovered [OF nc, of f] nc show ?thesis
    by (simp add: pixel_divisions_def)
qed

text \<open>
  The triangle \<open>(0, 0, 0)\<close>, \<open>(1, 1, 0)\<close>, \<open>(1, 1, 0)\<close> on a 2 by 2 frame: every pixel
  keeps its value.
\<close>

theorem zero_area_no_coverage_witness:
  "at1 (vertices flat_tri) = at2 (vertices flat_tri)
   \<and> edge_u flat_tri = Array3 (Fin False (2 ^ 149)) (Fin False (2 ^ 149)) (Fin False 0)
   \<and> edge_v flat_tri = Array3 (Fin False (2 ^ 149)) (Fin False (2 ^ 149)) (Fin False 0)
   \<and> fmul (at0 (edge_u flat_tri)) (at1 (edge_v flat_tri)) = Fin False (2 ^ 149)
   \<and> (\<exists>st. rasterize flat_tri (Frame_init 2 2 black) = Some st
         \<and> frame st = Frame_init 2 2 black)"
proof -
  have 0: "at1 (vertices flat_tri) = at2 (vertices flat_tri)"
    by (simp add: flat_tri_def)
  have p: "fmul (at0 (edge_u flat_tri)) (at1 (edge_v flat_tri)) = Fin False (2 ^ 149)"
    by (simp add: flat_edges f32_fast cong: let_weak_cong)
  have 1: "vfinite (edge_u flat_tri)" and 2: "vfinite (edge_v flat_tri)"
    by (simp_all add: flat_edges vfinite_def)
  have 3: "valof (at0 (edge_u flat_tri)) * valof (at1 (edge_v flat_tri))
       = valof (at1 (edge_u flat_tri)) * valof (at0 (edge_v flat_tri))"
    by (simp add: flat_edges)
  have 4: "is_finite (fmul (at0 (edge_u flat_tri)) (at1 (edge_v flat_tri)))"
    by (simp add: p)
  from zero_area_no_coverage [OF 1 2 3 4, of "Frame_init 2 2 black"] 0 p flat_edges
  show ?thesis
    by blast
qed

text \<open>
  C5 as stated fails when the product overflows. The triangle \<open>(0, 0, 0)\<close>,
  \<open>(2 ^ 64, 2 ^ 64, 0)\<close>, \<open>(2 ^ 64, 2 ^ 64, 0)\<close> has two identical vertices, all of them
  finite. \<open>u[0] * u[1] = 2 ^ 128\<close> rounds to \<open>\<infinity>\<close>, the determinant is
  \<open>-\<infinity> + \<infinity>\<close>, a NaN, the test \<open>a \<le> eps1\<close> is false, and the pixel \<open>(0, 0)\<close> of a
  1 by 1 black frame is covered and overwritten.
\<close>

theorem zero_area_counterexample:
  "at1 (vertices far_tri) = at2 (vertices far_tri)
   \<and> vfinite (at0 (vertices far_tri)) \<and> vfinite (at1 (vertices far_tri))
   \<and> vfinite (edge_u far_tri)
   \<and> fmul (at0 (edge_u far_tri)) (at1 (edge_u far_tri)) = Inf False
   \<and> det far_tri = NaN
   \<and> covered far_tri 0 0
   \<and> Option.bind (rasterize far_tri (Frame_init 1 1 black)) (\<lambda>st. getPixel (frame st) 0 0)
       = Some (Array3 NaN NaN NaN)
   \<and> Array3 NaN NaN NaN \<noteq> black"
proof -
  have "at1 (vertices far_tri) = at2 (vertices far_tri)"
    "vfinite (at0 (vertices far_tri))" "vfinite (at1 (vertices far_tri))"
    by (simp_all add: far_tri_def vfinite_def f32_fast cong: let_weak_cong)
  moreover have "vfinite (edge_u far_tri)"
    "fmul (at0 (edge_u far_tri)) (at1 (edge_u far_tri)) = Inf False"
    by (simp_all add: far_edge_u vfinite_def f32_fast cong: let_weak_cong)
  moreover have "rasterize far_tri (Frame_init 1 1 black) =
      Some \<lparr>frame = \<lparr>WIDTH = 1, HEIGHT = 1, buffer = [Array3 NaN NaN NaN]\<rparr>,
            trace = pixel_events far_tri 0 0\<rparr>"
    by (simp add: rasterize_1x1 far_covered far_shade)
  ultimately show ?thesis
    by (simp add: far_det far_covered getPixel_def pixel_index_def black_def f32_zero_def)
qed

subsection \<open>C6: a pixel that is not covered\<close>

text \<open>
  C6, as amended. In a frame of \<open>w * h < 2 ^ 32\<close> cells created with a fill colour, the
  run ends; it calls \<open>setPixel\<close> at no pixel \<open>(x, y)\<close> of the frame that is not covered,
  and such a pixel reads the fill colour afterwards.
\<close>

theorem uncovered_pixel_keeps_fill:
  assumes "unat w * unat h < 2 ^ 32" and "x < w" and "y < h" and "\<not> covered tri x y"
  shows "\<exists>st. rasterize tri (Frame_init w h fill) = Some st
    \<and> (\<forall>c. SetPixel x y c \<notin> set (trace st))
    \<and> getPixel (frame st) x y = Some fill"
proof -
  let ?f = "Frame_init w h fill"
  have wf: "wf_frame ?f"
    using assms(1) by (rule wf_frame_init)
  have x: "x < WIDTH ?f" and y: "y < HEIGHT ?f"
    using assms(2,3) by (simp_all add: Frame_init_def)
  obtain st where run: "rasterize tri ?f = Some st"
    using rasterize_defined [OF wf] by blast
  have "pixel_index ?f x y < length (buffer ?f)"
    using pixel_index_wf(2) [OF wf x y] .
  then have "buffer ?f ! pixel_index ?f x y = fill"
    by (simp add: Frame_init_def)
  with rasterize_pixel [OF wf run x y] assms(4)
  have "getPixel (frame st) x y = Some fill"
    by simp
  moreover have "\<forall>c. SetPixel x y c \<notin> set (trace st)"
    using assms(4) by (simp add: SetPixel_in_trace [OF run])
  ultimately show ?thesis
    using run by blast
qed

text \<open>The pixel \<open>(1, 1)\<close> of a 2 by 2 black frame, under three equal vertices.\<close>

theorem uncovered_pixel_keeps_fill_witness:
  "\<not> covered point_tri 1 1
   \<and> (\<exists>st. rasterize point_tri (Frame_init 2 2 black) = Some st
        \<and> getPixel (frame st) 1 1 = Some black)"
proof -
  have nc: "\<not> covered point_tri 1 1"
    by (simp add: not_covered_small_det fle_zero_eps1 point_det)
  have s: "unat (2 :: u32) * unat (2 :: u32) < 2 ^ 32" and lt: "(1 :: u32) < 2"
    by simp_all
  from uncovered_pixel_keeps_fill [OF s lt lt nc, of black] nc show ?thesis
    by blast
qed

text \<open>
  C6 as stated fails for a pixel outside the hull and within the tolerance. In the
  triangle \<open>(1/2, 1/2, 1)\<close>, \<open>(1/2, 2 ^ 33, 1)\<close>, \<open>(2 ^ 33, 1/2, 1)\<close> every point of the
  hull has both coordinates at least \<open>1/2\<close>, so the pixel \<open>(0, 0)\<close> is outside. There
  \<open>u = (0, 2 ^ 33, 0)\<close> and \<open>v = (2 ^ 33, 0, 0)\<close> after rounding, \<open>a = 2 ^ 66\<close>,
  \<open>s = (-1/2, -1/2, -1)\<close>, \<open>\<beta> = \<gamma> = -2 ^ 32 / 2 ^ 66 = -2 ^ -34\<close>, which is not below
  \<open>-eps2\<close> (about \<open>-2 ^ -33.2\<close>), \<open>\<alpha> = 1\<close> and \<open>d = 1 > 0.1f\<close>: the pixel is covered and
  a 1 by 1 black frame receives a colour.
\<close>

theorem outside_hull_counterexample:
  "outside_hull wide_tri 0 0 \<and> covered wide_tri 0 0
   \<and> getPixel (Frame_init 1 1 black) 0 0 = Some black
   \<and> Option.bind (rasterize wide_tri (Frame_init 1 1 black)) (\<lambda>st. getPixel (frame st) 0 0)
       = Some (Array3 (Fin False (14092861 * 2 ^ 125)) (Fin False (14092861 * 2 ^ 125))
           (Fin True (14092861 * 2 ^ 92)))
   \<and> Array3 (Fin False (14092861 * 2 ^ 125)) (Fin False (14092861 * 2 ^ 125))
        (Fin True (14092861 * 2 ^ 92)) \<noteq> black"
proof -
  have "rasterize wide_tri (Frame_init 1 1 black) =
      Some \<lparr>frame = \<lparr>WIDTH = 1, HEIGHT = 1, buffer = [shade wide_tri 0 0]\<rparr>,
            trace = pixel_events wide_tri 0 0\<rparr>"
    by (simp add: rasterize_1x1 wide_covered)
  then show ?thesis
    using wide_outside wide_covered
    by (simp add: wide_shade getPixel_def pixel_index_def Frame_init_def black_def f32_zero_def)
qed

subsection \<open>C7: the exported text\<close>

text \<open>
  C7, as amended. For a well-formed frame with \<open>WIDTH < 2 ^ 31\<close> and
  \<open>HEIGHT \<le> 2 ^ 31\<close> whose channels, times 255, are finite and in the range of
  \<^verbatim>\<open>int\<close>, \<open>writeBuffer\<close> emits exactly the header \<^verbatim>\<open>P3 <width> <height> 255\<close> and the
  pixel lines from row \<open>HEIGHT - 1\<close> down to row \<open>0\<close>, left to right in each row, each
  channel the single-precision product of the component and 255 truncated toward zero.
\<close>

theorem writeBuffer_image:
  assumes "wf_frame f" and "unat (WIDTH f) < 2 ^ 31" and "unat (HEIGHT f) \<le> 2 ^ 31"
    and "\<forall>p \<in> set (buffer f). printable p"
  shows "writeBuffer f = Some (image_text f)"
proof (cases "HEIGHT f = 0")
  case True
  then have "sint (HEIGHT f - 1) < 0"
    by simp
  from write_rows_negative [OF this] True show ?thesis
    by (simp add: writeBuffer_def image_text_def image_header_def)
next
  case False
  then have nz: "unat (HEIGHT f) \<noteq> 0"
    by (simp add: unat_eq_0)
  have u: "unat (HEIGHT f - 1) = unat (HEIGHT f) - 1"
    by (simp add: unat_minus_one False)
  then have small: "unat (HEIGHT f - 1) < 2 ^ 31"
    using assms(3) nz by simp
  have lt: "HEIGHT f - 1 < HEIGHT f"
    using u nz by (simp add: word_less_nat_alt)
  from write_rows_text [OF assms(1,2,4) small lt] u nz show ?thesis
    by (simp add: writeBuffer_def image_text_def image_header_def)
qed

text \<open>
  A 2 by 2 frame with the cells black, white, the program's fill colour and \<open>(2, -1, 0)\<close>:
  the row \<open>y = 1\<close> comes first, \<open>0.32f * 255\<close> is printed as 81, and the components 2 and
  \<open>-1\<close> as 510 and \<open>-255\<close>.
\<close>

theorem writeBuffer_image_witness:
  "wf_frame sample_frame \<and> unat (WIDTH sample_frame) < 2 ^ 31
   \<and> unat (HEIGHT sample_frame) \<le> 2 ^ 31
   \<and> writeBuffer sample_frame =
       Some (''P3 2 2 255'' @ endl @ ''81 81 81'' @ endl @ ''510 -255 0'' @ endl
             @ ''0 0 0'' @ endl @ ''255 255 255'' @ endl)"
proof -
  have d: "unat (WIDTH sample_frame) < 2 ^ 31" "unat (HEIGHT sample_frame) \<le> 2 ^ 31"
    by (simp_all add: sample_frame_def)
  from writeBuffer_image [OF sample_wf d sample_printable] sample_wf d show ?thesis
    by (simp only: sample_text simp_thms)
qed

text \<open>
  C7 as stated fails for a frame higher than \<open>2 ^ 31\<close>. The row counter is an
  \<^verbatim>\<open>int32_t\<close> initialised with \<^verbatim>\<open>HEIGHT - 1\<close>; for \<^verbatim>\<open>Frame(1, 0x80000001, fill)\<close> that
  is \<open>0x80000000\<close>, which the counter holds as \<open>-2 ^ 31\<close>, so \<^verbatim>\<open>y >= 0\<close> is false at
  once and the header is all that is written.
\<close>

theorem writeBuffer_tall_counterexample:
  "wf_frame tall_frame \<and> printable black
   \<and> writeBuffer tall_frame = Some (''P3 1 2147483649 255'' @ endl)
   \<and> writeBuffer tall_frame \<noteq> Some (image_text tall_frame)"
proof -
  have wf: "wf_frame tall_frame"
    unfolding tall_frame_def by (rule wf_frame_init) simp
  have pr: "printable black"
    by (simp add: printable_def black_def f32_fast cong: let_weak_cong)
  have neg: "sint (HEIGHT tall_frame - 1) < 0"
    by (simp add: tall_frame_def Frame_init_def)
  have hd: "image_header tall_frame = ''P3 1 2147483649 255'' @ endl"
    by (simp add: image_header_def tall_frame_def Frame_init_def dec_nat_digit dec_nat_step)
  have w: "writeBuffer tall_frame = Some (image_header tall_frame)"
    using write_rows_negative [OF neg] by (simp add: writeBuffer_def image_header_def)
  have "image_text tall_frame \<noteq> image_header tall_frame"
    by (rule image_text_rows) (simp_all add: tall_frame_def Frame_init_def)
  with wf pr w hd show ?thesis
    by simp
qed

subsection \<open>C8: the sum of the weights\<close>

text \<open>
  C8, as amended. At every pixel \<open>\<alpha>\<close> is the single-precision \<open>1.0f - (\<beta> + \<gamma>)\<close>, and
  when \<open>\<alpha>\<close> is finite the exact sum of the three weights differs from 1 by at most
  \<open>(|1 - (\<beta> \<oplus> \<gamma>)| + |\<beta> + \<gamma>|) / 2 ^ 24\<close>, the rounding error of the addition and of
  the subtraction (\<open>\<oplus>\<close> is the rounded sum).
\<close>

theorem weights_sum:
  "alpha tri x y = fsub f32_one (fadd (beta tri x y) (gamma tri x y))
   \<and> (is_finite (alpha tri x y) \<longrightarrow>
        \<bar>valof (alpha tri x y) + valof (beta tri x y) + valof (gamma tri x y) - 1\<bar>
          \<le> (\<bar>1 - valof (fadd (beta tri x y) (gamma tri x y))\<bar>
               + \<bar>valof (beta tri x y) + valof (gamma tri x y)\<bar>) / 2 ^ 24)"
proof (intro conjI impI)
  show a: "alpha tri x y = fsub f32_one (fadd (beta tri x y) (gamma tri x y))"
    by (simp add: alpha_def)
  assume fin: "is_finite (alpha tri x y)"
  let ?b = "beta tri x y" and ?c = "gamma tri x y"
  let ?s = "fadd ?b ?c"
  have fa: "is_finite (fadd f32_one (fneg ?s))"
    using fin by (simp add: a fsub_def)
  then have fs: "is_finite ?s"
    using is_finite_fadd [of f32_one "fneg ?s"] by simp
  have 1: "\<bar>valof (alpha tri x y) - (1 - valof ?s)\<bar> \<le> \<bar>1 - valof ?s\<bar> / 2 ^ 24"
    using fadd_error [OF fa] by (simp add: a fsub_def)
  have 2: "\<bar>valof ?s - (valof ?b + valof ?c)\<bar> \<le> \<bar>valof ?b + valof ?c\<bar> / 2 ^ 24"
    using fadd_error [OF fs] .
  have "\<bar>valof (alpha tri x y) + valof ?b + valof ?c - 1\<bar>
      \<le> \<bar>valof (alpha tri x y) - (1 - valof ?s)\<bar> + \<bar>valof ?s - (valof ?b + valof ?c)\<bar>"
    by linarith
  with 1 2 show "\<bar>valof (alpha tri x y) + valof ?b + valof ?c - 1\<bar>
      \<le> (\<bar>1 - valof ?s\<bar> + \<bar>valof ?b + valof ?c\<bar>) / 2 ^ 24"
    by (simp add: add_divide_distrib)
qed

text \<open>The pixel \<open>(83, 82)\<close> of the program's triangle.\<close>

theorem weights_sum_witness:
  "is_finite (alpha main_tri 83 82)
   \<and> \<bar>valof (alpha main_tri 83 82) + valof (beta main_tri 83 82) + valof (gamma main_tri 83 82) - 1\<bar>
       \<le> (\<bar>1 - valof (fadd (beta main_tri 83 82) (gamma main_tri 83 82))\<bar>
            + \<bar>valof (beta main_tri 83 82) + valof (gamma main_tri 83 82)\<bar>) / 2 ^ 24"
proof -
  have f: "is_finite (alpha main_tri 83 82)"
    by (simp add: main_alpha)
  from weights_sum [of main_tri 83 82] f show ?thesis
    by blast
qed

text \<open>
  C8 as stated fails at the covered pixel \<open>(83, 82)\<close> of the program's own triangle:
  \<open>\<beta> = 10226113 * 2 ^ -35\<close>, \<open>\<gamma> = 15978301 * 2 ^ -31\<close> and \<open>\<alpha> = 520231 * 2 ^ -19\<close>.
  Their exact sum is \<open>34359737745 / 2 ^ 35\<close>, which is \<open>1 - 623 / 2 ^ 35\<close>, and their
  single-precision sum \<^verbatim>\<open>(alpha + beta) + gamma\<close> is \<open>16777215 / 2 ^ 24\<close>.
\<close>

theorem weights_sum_counterexample:
  "covered main_tri 83 82
   \<and> fadd (fadd (alpha main_tri 83 82) (beta main_tri 83 82)) (gamma main_tri 83 82)
       = Fin False (16777215 * 2 ^ 125)
   \<and> f32_one = Fin False (16777216 * 2 ^ 125)
   \<and> fadd (fadd (alpha main_tri 83 82) (beta main_tri 83 82)) (gamma main_tri 83 82) \<noteq> f32_one
   \<and> valof (alpha main_tri 83 82) + valof (beta main_tri 83 82) + valof (gamma main_tri 83 82)
       = 34359737745 / 2 ^ 35
   \<and> valof (alpha main_tri 83 82) + valof (beta main_tri 83 82) + valof (gamma main_tri 83 82) \<noteq> 1"
proof -
  have a: "covered main_tri 83 82
   \<and> fadd (fadd (alpha main_tri 83 82) (beta main_tri 83 82)) (gamma main_tri 83 82)
       = Fin False (16777215 * 2 ^ 125)
   \<and> f32_one = Fin False (16777216 * 2 ^ 125)
   \<and> fadd (fadd (alpha main_tri 83 82) (beta main_tri 83 82)) (gamma main_tri 83 82) \<noteq> f32_one"
    by (simp add: main_covered main_alpha main_beta main_gamma f32_fast cong: let_weak_cong)
  have b: "valof (alpha main_tri 83 82) + valof (beta main_tri 83 82)
      + valof (gamma main_tri 83 82) = 34359737745 / 2 ^ 35"
    by (simp add: main_alpha main_beta main_gamma valof_def)
  then have "valof (alpha main_tri 83 82) + valof (beta main_tri 83 82)
      + valof (gamma main_tri 83 82) \<noteq> 1"
    by simp
  with a b show ?thesis
    by blast
qed

subsection \<open>C9: a pixel that is set is the pixel that is read\<close>

text \<open>
  C9, as amended. In a well-formed frame (the buffer has \<open>WIDTH * HEIGHT\<close> cells and that
  number is below \<open>2 ^ 32\<close>), for in-range \<open>(x, y)\<close>: \<open>setPixel\<close> succeeds,
  \<open>getPixel\<close> at \<open>(x, y)\<close> then returns the colour that was set, and \<open>getPixel\<close> at
  every other in-range coordinate returns what it returned before.
\<close>

theorem setPixel_getPixel:
  assumes "wf_frame f" and "x < WIDTH f" and "y < HEIGHT f"
  shows "\<exists>f'. setPixel f x y c = Some f' \<and> getPixel f' x y = Some c
    \<and> (\<forall>x' y'. x' < WIDTH f \<longrightarrow> y' < HEIGHT f \<longrightarrow> (x', y') \<noteq> (x, y)
          \<longrightarrow> getPixel f' x' y' = getPixel f x' y')"
proof -
  let ?f' = "f\<lparr>buffer := (buffer f)[pixel_index f x y := c]\<rparr>"
  have inr: "pixel_index f x y < length (buffer f)"
    using pixel_index_wf(2) [OF assms] .
  have ix: "pixel_index ?f' a b = pixel_index f a b" for a b
    by (simp add: pixel_index_def)
  have set: "setPixel f x y c = Some ?f'"
    using inr by (simp add: setPixel_def)
  have get: "getPixel ?f' x y = Some c"
    using inr by (simp add: getPixel_def ix)
  have other: "getPixel ?f' x' y' = getPixel f x' y'"
    if "x' < WIDTH f" "y' < HEIGHT f" "(x', y') \<noteq> (x, y)" for x' y'
  proof -
    have "pixel_index f x' y' \<noteq> pixel_index f x y"
      using pixel_index_inj [OF assms(1) that(1,2) assms(2,3)] that(3) by auto
    then show ?thesis
      by (simp add: getPixel_def ix)
  qed
  from set get other show ?thesis
    by blast
qed

text \<open>The amended statement at the pixel \<open>(1, 1)\<close> of a 2 by 2 frame.\<close>

theorem setPixel_getPixel_witness:
  "\<exists>f'. setPixel (Frame_init 2 2 black) 1 1 white = Some f' \<and> getPixel f' 1 1 = Some white
    \<and> getPixel f' 0 1 = getPixel (Frame_init 2 2 black) 0 1"
proof -
  have wf: "wf_frame (Frame_init 2 2 black)"
    by (rule wf_frame_init) simp
  have x: "(1 :: u32) < WIDTH (Frame_init 2 2 black)"
    and y: "(1 :: u32) < HEIGHT (Frame_init 2 2 black)"
    and x': "(0 :: u32) < WIDTH (Frame_init 2 2 black)"
    by (simp_all add: Frame_init_def)
  from setPixel_getPixel [OF wf x y, of white] x' y show ?thesis
    by fastforce
qed

text \<open>
  C9 as stated fails when \<open>WIDTH * HEIGHT\<close> overflows 32 bits. \<^verbatim>\<open>Frame(0xFFFFFFFF,
  0xFFFFFFFF, fill)\<close> allocates \<open>0xFFFFFFFF * 0xFFFFFFFF mod 2 ^ 32 = 1\<close> cell; the index of
  \<open>(1, 1)\<close> is \<open>1 + 0xFFFFFFFF mod 2 ^ 32 = 0\<close>, the index of \<open>(0, 0)\<close>. Both
  coordinates are in range, and setting \<open>(1, 1)\<close> changes what \<open>(0, 0)\<close> reads.
\<close>

theorem setPixel_alias_counterexample:
  "(0 :: u32) < WIDTH wrapped_frame \<and> (0 :: u32) < HEIGHT wrapped_frame
   \<and> (1 :: u32) < WIDTH wrapped_frame \<and> (1 :: u32) < HEIGHT wrapped_frame
   \<and> getPixel wrapped_frame 0 0 = Some black
   \<and> Option.bind (setPixel wrapped_frame 1 1 white) (\<lambda>f'. getPixel f' 0 0) = Some white
   \<and> white \<noteq> black"
  by (simp add: wrapped_frame_def Frame_init_def getPixel_def setPixel_def pixel_index_def
      white_def black_def f32_zero_def f32_one_def)

subsection \<open>C10: the program stays inside its buffer\<close>

text \<open>
  C10. In the program (a 1024 by 1024 frame), for every \<open>x\<close> and \<open>y\<close> below 1024 the
  flat index \<open>x + y * WIDTH\<close> is computed without wrap-around and is below the buffer
  size \<open>1024 * 1024\<close>, before and after rasterization. The raster loop runs to its end
  without an access out of bounds (the result is \<open>Some\<close>), and each of its \<open>setPixel\<close>
  calls is at coordinates below 1024. The loops of \<open>writeBuffer\<close> on the resulting frame
  run to their end as well: \<open>writeBuffer\<close>, which is \<open>None\<close> as soon as one \<open>getPixel\<close>
  is out of bounds, returns the text of exactly the pixels \<open>(x, y)\<close> with \<open>x\<close> and \<open>y\<close>
  below 1024, and so does the whole program \<open>main\<close>.
\<close>

theorem main_accesses_in_bounds:
  assumes "x < 1024" and "y < 1024"
  shows "\<exists>st. rasterize main_tri main_frame = Some st
    \<and> length (buffer (frame st)) = 1024 * 1024
    \<and> pixel_index main_frame x y = unat x + unat y * 1024
    \<and> pixel_index main_frame x y < length (buffer main_frame)
    \<and> pixel_index (frame st) x y = unat x + unat y * 1024
    \<and> pixel_index (frame st) x y < length (buffer (frame st))
    \<and> getPixel (frame st) x y \<noteq> None
    \<and> (\<forall>x' y' c. SetPixel x' y' c \<in> set (trace st) \<longrightarrow> x' < 1024 \<and> y' < 1024)
    \<and> writeBuffer (frame st) = Some (image_text (frame st))
    \<and> main = Some (image_text (frame st))"
proof -
  obtain st where run: "rasterize main_tri main_frame = Some st"
    using rasterize_defined [OF wf_main_frame] by blast
  have dims: "WIDTH main_frame = 1024" "HEIGHT main_frame = 1024"
    "length (buffer main_frame) = 1024 * 1024"
    by (simp_all add: main_frame_def Frame_init_def)
  have x: "x < WIDTH main_frame" and y: "y < HEIGHT main_frame"
    using assms by (simp_all add: dims)
  note ix = pixel_index_wf [OF wf_main_frame x y]
  have same: "pixel_index (frame st) x y = pixel_index main_frame x y"
    using rasterize_dims(1) [OF run] by (simp add: pixel_index_def)
  have len: "length (buffer (frame st)) = length (buffer main_frame)"
    using rasterize_dims(3) [OF run] .
  have W: "WIDTH (frame st) = 1024" and H: "HEIGHT (frame st) = 1024"
    using rasterize_dims(1,2) [OF run] by (simp_all add: dims)
  have get: "getPixel (frame st) x y \<noteq> None"
    using rasterize_pixel [OF wf_main_frame run x y] by simp
  have sets: "\<forall>x' y' c. SetPixel x' y' c \<in> set (trace st) \<longrightarrow> x' < 1024 \<and> y' < 1024"
    by (simp add: SetPixel_in_trace [OF run] dims)
  have wf: "wf_frame (frame st)"
    using wf_main_frame by (simp add: wf_frame_def W H len dims)
  have rows: "write_rows (frame st) (HEIGHT (frame st) - 1) out =
      Some (out @ concat (map (image_row (frame st))
        (rev [0..<Suc (unat (HEIGHT (frame st) - 1))])))" for out
    by (rule write_rows_text [OF wf _ main_cells_printable [OF run]]) (simp_all add: W H)
  have "Suc (unat (HEIGHT (frame st) - 1)) = unat (HEIGHT (frame st))"
    by (simp add: H)
  with rows have wb: "writeBuffer (frame st) = Some (image_text (frame st))"
    by (simp only: writeBuffer_def image_text_def image_header_def)
  then have "main = Some (image_text (frame st))"
    by (simp add: main_def run)
  with run ix same len dims get sets wb show ?thesis
    by simp
qed

text \<open>The last pixel, \<open>(1023, 1023)\<close>, has index \<open>1048575\<close>.\<close>

theorem main_accesses_in_bounds_witness:
  "(1023 :: u32) < 1024 \<and> (\<exists>st. rasterize main_tri main_frame = Some st
    \<and> pixel_index (frame st) 1023 1023 = 1048575
    \<and> pixel_index (frame st) 1023 1023 < length (buffer (frame st))
    \<and> getPixel (frame st) 1023 1023 \<noteq> None
    \<and> writeBuffer (frame st) = Some (image_text (frame st))
    \<and> main = Some (image_text (frame st)))"
proof -
  have h: "(1023 :: u32) < 1024"
    by simp
  from main_accesses_in_bounds [OF h h] h show ?thesis
    by auto
qed

end
